theory Spec2Isabelle
  imports Main "HOL-Library.Word"
begin

section \<open>JavaScript values used by the library\<close>

text \<open>
  The library (\<^verbatim>\<open>lib/file.js\<close> and \<^verbatim>\<open>lib/struct.js\<close>) is a thin layer over Node's
  \<^verbatim>\<open>Buffer\<close> and \<^verbatim>\<open>fs\<close>. A \<^verbatim>\<open>Buffer\<close> is a list of bytes. A JavaScript string is
  modelled by its sequence of code points: the source never looks at a string except
  through \<^verbatim>\<open>new Buffer(str)\<close>, \<^verbatim>\<open>Buffer.byteLength(str)\<close>, \<^verbatim>\<open>buffer.write(str, off)\<close> and
  \<^verbatim>\<open>data.toString()\<close>, all of which go through UTF-8. A code point in D800..DFFF stands
  for a lone surrogate.
\<close>

type_synonym byte = "8 word"
type_synonym buffer = "byte list"
type_synonym jsstring = "nat list"

datatype error = IOError | RangeError | ReferenceError

text \<open>
  A file offset as the program holds it: \<^verbatim>\<open>this.position\<close> is whatever the caller passed,
  possibly \<^verbatim>\<open>undefined\<close>, and \<^verbatim>\<open>undefined + n\<close> is \<^verbatim>\<open>NaN\<close>.
\<close>

datatype jsnum = Undefined | NaN | Num nat

fun jsadd :: "jsnum \<Rightarrow> nat \<Rightarrow> jsnum" where
  "jsadd (Num p) n = Num (p + n)"
| "jsadd Undefined n = NaN"
| "jsadd NaN n = NaN"

text \<open>\<^verbatim>\<open>pos || 0\<close>: every falsy value (\<^verbatim>\<open>undefined\<close>, \<^verbatim>\<open>NaN\<close>, \<^verbatim>\<open>0\<close>) becomes \<^verbatim>\<open>0\<close>.\<close>

fun or_zero :: "jsnum \<Rightarrow> jsnum" where
  "or_zero (Num p) = Num p"
| "or_zero Undefined = Num 0"
| "or_zero NaN = Num 0"

text \<open>
  The arguments a Node-style callback is invoked with, \<^verbatim>\<open>(err)\<close> or \<^verbatim>\<open>(null, results)\<close>,
  and the way an asynchronous operation ends: it invokes its callback, or an exception
  escapes and the callback is never invoked.
\<close>

datatype 'a call = Err error | Ok 'a

datatype 'a outcome = Called "'a call" | Throw error

section \<open>UTF-8, as \<^verbatim>\<open>new Buffer(str)\<close> and \<^verbatim>\<open>toString()\<close> apply it\<close>

definition scalar :: "nat \<Rightarrow> bool" where
  "scalar c = (c < 0xD800 \<or> (0xE000 \<le> c \<and> c \<le> 0x10FFFF))"

text \<open>A lone surrogate is encoded as U+FFFD (EF BF BD).\<close>

definition utf8_cp :: "nat \<Rightarrow> nat list" where
  "utf8_cp c =
     (if c < 0x80 then [c]
      else if c < 0x800 then [0xC0 + c div 64, 0x80 + c mod 64]
      else if c < 0xD800 \<or> (0xE000 \<le> c \<and> c < 0x10000) then
        [0xE0 + c div 4096, 0x80 + (c div 64) mod 64, 0x80 + c mod 64]
      else if 0x10000 \<le> c \<and> c \<le> 0x10FFFF then
        [0xF0 + c div 262144, 0x80 + (c div 4096) mod 64, 0x80 + (c div 64) mod 64,
         0x80 + c mod 64]
      else [0xEF, 0xBF, 0xBD])"

definition utf8_encode :: "jsstring \<Rightarrow> buffer" where
  "utf8_encode s = map of_nat (concat (map utf8_cp s))"

text \<open>
  Decoding replaces every ill-formed sequence by U+FFFD, one per maximal subpart, and
  never fails. \<open>lead b\<close> gives, for a lead byte, the number of continuation bytes and the
  range allowed for the first of them.
\<close>

definition lead :: "nat \<Rightarrow> nat \<times> nat \<times> nat" where
  "lead b =
     (if 0xC2 \<le> b \<and> b \<le> 0xDF then (1, 0x80, 0xBF)
      else if b = 0xE0 then (2, 0xA0, 0xBF)
      else if b = 0xED then (2, 0x80, 0x9F)
      else if 0xE1 \<le> b \<and> b \<le> 0xEF then (2, 0x80, 0xBF)
      else if b = 0xF0 then (3, 0x90, 0xBF)
      else if b = 0xF4 then (3, 0x80, 0x8F)
      else if 0xF1 \<le> b \<and> b \<le> 0xF3 then (3, 0x80, 0xBF)
      else (0, 0, 0))"

text \<open>The code point that starts with byte \<open>b\<close>, and how many of the following bytes it takes.\<close>

definition utf8_step :: "nat \<Rightarrow> nat list \<Rightarrow> nat \<times> nat" where
  "utf8_step b bs =
     (if b < 0x80 then (b, 0)
      else (case lead b of (need, lo, hi) \<Rightarrow>
        if need = 0 then (0xFFFD, 0)
        else (case bs of
          [] \<Rightarrow> (0xFFFD, 0)
        | c1 # r1 \<Rightarrow>
            if c1 < lo \<or> hi < c1 then (0xFFFD, 0)
            else if need = 1 then ((b - 0xC0) * 64 + (c1 - 0x80), 1)
            else (case r1 of
              [] \<Rightarrow> (0xFFFD, 1)
            | c2 # r2 \<Rightarrow>
                if c2 < 0x80 \<or> 0xBF < c2 then (0xFFFD, 1)
                else if need = 2 then
                  ((b - 0xE0) * 4096 + (c1 - 0x80) * 64 + (c2 - 0x80), 2)
                else (case r2 of
                  [] \<Rightarrow> (0xFFFD, 2)
                | c3 # r3 \<Rightarrow>
                    if c3 < 0x80 \<or> 0xBF < c3 then (0xFFFD, 2)
                    else ((b - 0xF0) * 262144 + (c1 - 0x80) * 4096
                           + (c2 - 0x80) * 64 + (c3 - 0x80), 3))))))"

fun utf8_dec :: "nat list \<Rightarrow> nat list" where
  "utf8_dec [] = []"
| "utf8_dec (b # bs) = fst (utf8_step b bs) # utf8_dec (drop (snd (utf8_step b bs)) bs)"

definition utf8_decode :: "buffer \<Rightarrow> jsstring" where
  "utf8_decode data = utf8_dec (map unat data)"

section \<open>Node's \<^verbatim>\<open>Buffer\<close>\<close>

text \<open>\<^verbatim>\<open>new Buffer(len)\<close>: \<open>len\<close> bytes, zero-filled.\<close>

definition Buffer_alloc :: "nat \<Rightarrow> buffer" where
  "Buffer_alloc len = replicate len 0"

definition Buffer_byteLength :: "jsstring \<Rightarrow> nat" where
  "Buffer_byteLength str = length (utf8_encode str)"

definition Buffer_toString :: "buffer \<Rightarrow> jsstring" where
  "Buffer_toString data = utf8_decode data"

text \<open>Overwriting the bytes of \<open>buf\<close> from \<open>off\<close> on by \<open>bs\<close>.\<close>

definition splice :: "buffer \<Rightarrow> nat \<Rightarrow> buffer \<Rightarrow> buffer" where
  "splice buf off bs = take off buf @ bs @ drop (off + length bs) buf"

text \<open>
  \<^verbatim>\<open>buffer.write(str, offset)\<close>: the UTF-8 bytes of \<open>str\<close>, as far as the buffer has room.
  The library always allocates \<^verbatim>\<open>len_size + Buffer.byteLength(str)\<close> bytes first.
\<close>

definition Buffer_write :: "buffer \<Rightarrow> jsstring \<Rightarrow> nat \<Rightarrow> buffer" where
  "Buffer_write buf str off = splice buf off (take (length buf - off) (utf8_encode str))"

text \<open>The bytes of an integer, least significant first, in two's complement.\<close>

fun le_bytes :: "nat \<Rightarrow> int \<Rightarrow> buffer" where
  "le_bytes 0 v = []"
| "le_bytes (Suc n) v = of_int (v mod 256) # le_bytes n (v div 256)"

fun le_value :: "buffer \<Rightarrow> int" where
  "le_value [] = 0"
| "le_value (b # bs) = uint b + 256 * le_value bs"

text \<open>
  \<^verbatim>\<open>buf.writeUIntBE(value, offset, byteLength)\<close> and its siblings throw a \<^verbatim>\<open>RangeError\<close>
  (\<^verbatim>\<open>ERR_OUT_OF_RANGE\<close>) when \<open>byteLength\<close> is not in 1..6, when the value does not fit,
  or when the bytes would fall outside the buffer; nothing is written then.
\<close>

definition Buffer_put ::
  "bool \<Rightarrow> int \<Rightarrow> int \<Rightarrow> buffer \<Rightarrow> int \<Rightarrow> nat \<Rightarrow> nat \<Rightarrow> error + buffer" where
  "Buffer_put big lo hi buf v off byteLength =
     (if byteLength < 1 \<or> 6 < byteLength then Inl RangeError
      else if v < lo \<or> hi < v then Inl RangeError
      else if length buf < off + byteLength then Inl RangeError
      else Inr (splice buf off
                 (if big then rev (le_bytes byteLength v) else le_bytes byteLength v)))"

definition Buffer_writeUIntBE :: "buffer \<Rightarrow> int \<Rightarrow> nat \<Rightarrow> nat \<Rightarrow> error + buffer" where
  "Buffer_writeUIntBE buf v off byteLength =
     Buffer_put True 0 (2 ^ (8 * byteLength) - 1) buf v off byteLength"

definition Buffer_writeUIntLE :: "buffer \<Rightarrow> int \<Rightarrow> nat \<Rightarrow> nat \<Rightarrow> error + buffer" where
  "Buffer_writeUIntLE buf v off byteLength =
     Buffer_put False 0 (2 ^ (8 * byteLength) - 1) buf v off byteLength"

definition Buffer_writeIntBE :: "buffer \<Rightarrow> int \<Rightarrow> nat \<Rightarrow> nat \<Rightarrow> error + buffer" where
  "Buffer_writeIntBE buf v off byteLength =
     Buffer_put True (- (2 ^ (8 * byteLength - 1))) (2 ^ (8 * byteLength - 1) - 1)
       buf v off byteLength"

definition Buffer_writeIntLE :: "buffer \<Rightarrow> int \<Rightarrow> nat \<Rightarrow> nat \<Rightarrow> error + buffer" where
  "Buffer_writeIntLE buf v off byteLength =
     Buffer_put False (- (2 ^ (8 * byteLength - 1))) (2 ^ (8 * byteLength - 1) - 1)
       buf v off byteLength"

text \<open>
  \<^verbatim>\<open>buf.readUIntBE(offset, byteLength)\<close> and its siblings: a \<^verbatim>\<open>RangeError\<close> when
  \<open>byteLength\<close> is not in 1..6 or the bytes are not all inside the buffer.
\<close>

definition Buffer_get :: "bool \<Rightarrow> bool \<Rightarrow> buffer \<Rightarrow> nat \<Rightarrow> nat \<Rightarrow> error + int" where
  "Buffer_get big sgnd buf off byteLength =
     (if byteLength < 1 \<or> 6 < byteLength then Inl RangeError
      else if length buf < off + byteLength then Inl RangeError
      else
        let bs = take byteLength (drop off buf);
            u = le_value (if big then rev bs else bs)
        in Inr (if sgnd \<and> 2 ^ (8 * byteLength - 1) \<le> u then u - 2 ^ (8 * byteLength)
                else u))"

definition Buffer_readUIntBE :: "buffer \<Rightarrow> nat \<Rightarrow> nat \<Rightarrow> error + int" where
  "Buffer_readUIntBE buf off byteLength = Buffer_get True False buf off byteLength"

definition Buffer_readUIntLE :: "buffer \<Rightarrow> nat \<Rightarrow> nat \<Rightarrow> error + int" where
  "Buffer_readUIntLE buf off byteLength = Buffer_get False False buf off byteLength"

definition Buffer_readIntBE :: "buffer \<Rightarrow> nat \<Rightarrow> nat \<Rightarrow> error + int" where
  "Buffer_readIntBE buf off byteLength = Buffer_get True True buf off byteLength"

definition Buffer_readIntLE :: "buffer \<Rightarrow> nat \<Rightarrow> nat \<Rightarrow> error + int" where
  "Buffer_readIntLE buf off byteLength = Buffer_get False True buf off byteLength"

section \<open>The byte store: Node's \<^verbatim>\<open>fs\<close> on an open descriptor\<close>

text \<open>
  The file behind \<^verbatim>\<open>this.fd\<close>: its bytes, the descriptor's own position (used by
  \<^verbatim>\<open>fs\<close> when the position argument is not an integer), the outcomes scheduled for the
  coming calls (\<open>True\<close>: the call fails with an I/O error; past the end of the list every
  call succeeds) and the log of the calls issued so far with the number of bytes each
  one transferred (\<open>None\<close> for a failed call).
\<close>

datatype io_event = FsWrite jsnum buffer "nat option" | FsRead jsnum nat "nat option"

record store =
  content :: buffer
  fpos :: nat
  faults :: "bool list"
  iolog :: "io_event list"

definition next_fault :: "store \<Rightarrow> bool" where
  "next_fault st = (case faults st of [] \<Rightarrow> False | f # _ \<Rightarrow> f)"

definition fs_offset :: "store \<Rightarrow> jsnum \<Rightarrow> nat" where
  "fs_offset st pos = (case pos of Num p \<Rightarrow> p | _ \<Rightarrow> fpos st)"

definition fs_advance :: "store \<Rightarrow> jsnum \<Rightarrow> nat \<Rightarrow> nat" where
  "fs_advance st pos n = (case pos of Num p \<Rightarrow> fpos st | _ \<Rightarrow> fpos st + n)"

text \<open>Writing past the end of the file leaves a hole of zero bytes.\<close>

definition write_at :: "buffer \<Rightarrow> nat \<Rightarrow> buffer \<Rightarrow> buffer" where
  "write_at c p data =
     (if data = [] then c else splice (c @ replicate (p - length c) 0) p data)"

text \<open>\<^verbatim>\<open>fs.write(fd, data, 0, data.length, pos, cb)\<close>; \<open>cb\<close> gets \<^verbatim>\<open>(err, written)\<close>.\<close>

definition fs_write :: "buffer \<Rightarrow> jsnum \<Rightarrow> store \<Rightarrow> nat call \<times> store" where
  "fs_write data pos st =
     (if next_fault st then
        (Err IOError,
         st\<lparr>faults := tl (faults st), iolog := iolog st @ [FsWrite pos data None]\<rparr>)
      else
        (Ok (length data),
         st\<lparr>content := write_at (content st) (fs_offset st pos) data,
            fpos := fs_advance st pos (length data),
            faults := tl (faults st),
            iolog := iolog st @ [FsWrite pos data (Some (length data))]\<rparr>))"

text \<open>
  \<^verbatim>\<open>fs.read(fd, buffer, 0, len, pos, cb)\<close> with \<^verbatim>\<open>buffer = new Buffer(len)\<close>; \<open>cb\<close> gets
  \<^verbatim>\<open>(err, bytesRead, buffer)\<close>. At the end of the file fewer than \<open>len\<close> bytes are read
  and the rest of the buffer stays zero. A read of length 0 calls back at once with
  \<^verbatim>\<open>(null, 0, buffer)\<close> and issues no I/O.
\<close>

definition fs_read :: "nat \<Rightarrow> jsnum \<Rightarrow> store \<Rightarrow> (nat \<times> buffer) call \<times> store" where
  "fs_read len pos st =
     (if len = 0 then (Ok (0, []), st)
      else if next_fault st then
        (Err IOError,
         st\<lparr>faults := tl (faults st), iolog := iolog st @ [FsRead pos len None]\<rparr>)
      else
        let got = take len (drop (fs_offset st pos) (content st)) in
        (Ok (length got, got @ replicate (len - length got) 0),
         st\<lparr>fpos := fs_advance st pos (length got),
            faults := tl (faults st),
            iolog := iolog st @ [FsRead pos len (Some (length got))]\<rparr>))"

section \<open>\<^verbatim>\<open>lib/file.js\<close>\<close>

text \<open>
  \<^verbatim>\<open>makeCallback(args, context)\<close> returns
  \<^verbatim>\<open>function(err) { if (err) throw err; if (typeof callback == 'function') callback.apply(context, arguments); }\<close>.
  \<open>makeCallback c\<close> is what happens when that function is invoked with the arguments
  \<open>c\<close>: an error is thrown, anything else reaches the callback unchanged.
\<close>

definition makeCallback :: "'a call \<Rightarrow> 'a outcome" where
  "makeCallback c = (case c of Err e \<Rightarrow> Throw e | Ok a \<Rightarrow> Called (Ok a))"

text \<open>
  \<open>then_call op k\<close>: the operation \<open>op\<close> has been given the callback \<open>k\<close>. If \<open>op\<close> throws,
  \<open>k\<close> never runs; otherwise \<open>k\<close> runs with the arguments \<open>op\<close> passes and the store \<open>op\<close> left.
\<close>

definition then_call ::
  "'a outcome \<times> store \<Rightarrow> ('a call \<Rightarrow> store \<Rightarrow> 'b outcome \<times> store) \<Rightarrow> 'b outcome \<times> store" where
  "then_call r k = (case r of (Throw e, st) \<Rightarrow> (Throw e, st) | (Called c, st) \<Rightarrow> k c st)"

subsection \<open>Read methods\<close>

definition File_read :: "jsnum \<Rightarrow> nat \<Rightarrow> store \<Rightarrow> (buffer \<times> nat) outcome \<times> store" where
  "File_read pos len st =
     (case fs_read len pos st of
        (Err e, st') \<Rightarrow> (makeCallback (Err e), st')
      | (Ok (bytesRead, data), st') \<Rightarrow> (makeCallback (Ok (data, bytesRead)), st'))"

definition File_readString ::
  "jsnum \<Rightarrow> nat \<Rightarrow> store \<Rightarrow> (jsstring \<times> nat) outcome \<times> store" where
  "File_readString pos len st =
     then_call (File_read pos len st) (\<lambda>c st'.
       case c of
         Err e \<Rightarrow> (makeCallback (Err e), st')
       | Ok (data, bytesRead) \<Rightarrow> (makeCallback (Ok (Buffer_toString data, bytesRead)), st'))"

text \<open>
  The four integer readers differ only in the \<^verbatim>\<open>Buffer\<close> method they call on the data;
  an exception of that method escapes from inside the callback.
\<close>

definition File_readNumber ::
  "(buffer \<Rightarrow> nat \<Rightarrow> nat \<Rightarrow> error + int) \<Rightarrow> jsnum \<Rightarrow> nat \<Rightarrow> store \<Rightarrow> (int \<times> nat) outcome \<times> store" where
  "File_readNumber decode pos len st =
     then_call (File_read pos len st) (\<lambda>c st'.
       case c of
         Err e \<Rightarrow> (makeCallback (Err e), st')
       | Ok (data, bytesRead) \<Rightarrow>
           (case decode data 0 len of
              Inl e \<Rightarrow> (Throw e, st')
            | Inr v \<Rightarrow> (makeCallback (Ok (v, bytesRead)), st')))"

definition File_readUIntBE :: "jsnum \<Rightarrow> nat \<Rightarrow> store \<Rightarrow> (int \<times> nat) outcome \<times> store" where
  "File_readUIntBE = File_readNumber Buffer_readUIntBE"

definition File_readUIntLE :: "jsnum \<Rightarrow> nat \<Rightarrow> store \<Rightarrow> (int \<times> nat) outcome \<times> store" where
  "File_readUIntLE = File_readNumber Buffer_readUIntLE"

definition File_readIntBE :: "jsnum \<Rightarrow> nat \<Rightarrow> store \<Rightarrow> (int \<times> nat) outcome \<times> store" where
  "File_readIntBE = File_readNumber Buffer_readIntBE"

definition File_readIntLE :: "jsnum \<Rightarrow> nat \<Rightarrow> store \<Rightarrow> (int \<times> nat) outcome \<times> store" where
  "File_readIntLE = File_readNumber Buffer_readIntLE"

text \<open>
  \<^verbatim>\<open>readStringLenBE\<close> and \<^verbatim>\<open>readStringLenLE\<close>: read the length with \<open>readLen\<close>, then the
  string right behind it, and report both byte counts together.
\<close>

definition File_readStringLen ::
  "(jsnum \<Rightarrow> nat \<Rightarrow> store \<Rightarrow> (int \<times> nat) outcome \<times> store) \<Rightarrow>
   jsnum \<Rightarrow> nat \<Rightarrow> store \<Rightarrow> (jsstring \<times> nat) outcome \<times> store" where
  "File_readStringLen readLen pos len_size st =
     then_call (readLen pos len_size st) (\<lambda>c st'.
       case c of
         Err e \<Rightarrow> (makeCallback (Err e), st')
       | Ok (len, lenBytesRead) \<Rightarrow>
           then_call (File_readString (jsadd pos lenBytesRead) (nat len) st') (\<lambda>c' st''.
             case c' of
               Err e \<Rightarrow> (makeCallback (Err e), st'')
             | Ok (str, strBytesRead) \<Rightarrow>
                 (makeCallback (Ok (str, lenBytesRead + strBytesRead)), st'')))"

definition File_readStringLenBE ::
  "jsnum \<Rightarrow> nat \<Rightarrow> store \<Rightarrow> (jsstring \<times> nat) outcome \<times> store" where
  "File_readStringLenBE = File_readStringLen File_readUIntBE"

definition File_readStringLenLE ::
  "jsnum \<Rightarrow> nat \<Rightarrow> store \<Rightarrow> (jsstring \<times> nat) outcome \<times> store" where
  "File_readStringLenLE = File_readStringLen File_readUIntLE"

text \<open>
  \<^verbatim>\<open>readBufferLenBE\<close> and \<^verbatim>\<open>readBufferLenLE\<close>: the callback of the second read is
  \<^verbatim>\<open>(err, data, dataBytesRead) => { cb(err, str, lenBytesRead + dataBytesRead); }\<close>.
  No \<^verbatim>\<open>str\<close> is declared in any enclosing scope, so evaluating the argument throws a
  \<^verbatim>\<open>ReferenceError\<close> before \<^verbatim>\<open>cb\<close> is called.
\<close>

definition File_readBufferLen ::
  "(jsnum \<Rightarrow> nat \<Rightarrow> store \<Rightarrow> (int \<times> nat) outcome \<times> store) \<Rightarrow>
   jsnum \<Rightarrow> nat \<Rightarrow> store \<Rightarrow> (buffer \<times> nat) outcome \<times> store" where
  "File_readBufferLen readLen pos len_size st =
     then_call (readLen pos len_size st) (\<lambda>c st'.
       case c of
         Err e \<Rightarrow> (makeCallback (Err e), st')
       | Ok (len, lenBytesRead) \<Rightarrow>
           then_call (File_read (jsadd pos lenBytesRead) (nat len) st') (\<lambda>c' st''.
             (Throw ReferenceError, st'')))"

definition File_readBufferLenBE ::
  "jsnum \<Rightarrow> nat \<Rightarrow> store \<Rightarrow> (buffer \<times> nat) outcome \<times> store" where
  "File_readBufferLenBE = File_readBufferLen File_readUIntBE"

definition File_readBufferLenLE ::
  "jsnum \<Rightarrow> nat \<Rightarrow> store \<Rightarrow> (buffer \<times> nat) outcome \<times> store" where
  "File_readBufferLenLE = File_readBufferLen File_readUIntLE"

subsection \<open>Write methods\<close>

definition File_write :: "buffer \<Rightarrow> jsnum \<Rightarrow> store \<Rightarrow> nat outcome \<times> store" where
  "File_write data pos st = (case fs_write data pos st of (c, st') \<Rightarrow> (makeCallback c, st'))"

definition File_writeString :: "jsstring \<Rightarrow> jsnum \<Rightarrow> store \<Rightarrow> nat outcome \<times> store" where
  "File_writeString str pos st = File_write (utf8_encode str) pos st"

text \<open>
  The four integer writers: \<^verbatim>\<open>var buffer = new Buffer(len); buffer.writeUIntBE(value, 0, len);
  this.write(buffer, pos, cb);\<close>. An exception of the \<^verbatim>\<open>Buffer\<close> method escapes before
  \<^verbatim>\<open>this.write\<close> is reached.
\<close>

definition File_writeNumber ::
  "(buffer \<Rightarrow> int \<Rightarrow> nat \<Rightarrow> nat \<Rightarrow> error + buffer) \<Rightarrow>
   int \<Rightarrow> jsnum \<Rightarrow> nat \<Rightarrow> store \<Rightarrow> nat outcome \<times> store" where
  "File_writeNumber encode v pos len st =
     (case encode (Buffer_alloc len) v 0 len of
        Inl e \<Rightarrow> (Throw e, st)
      | Inr buffer \<Rightarrow> File_write buffer pos st)"

definition File_writeUIntBE :: "int \<Rightarrow> jsnum \<Rightarrow> nat \<Rightarrow> store \<Rightarrow> nat outcome \<times> store" where
  "File_writeUIntBE = File_writeNumber Buffer_writeUIntBE"

definition File_writeUIntLE :: "int \<Rightarrow> jsnum \<Rightarrow> nat \<Rightarrow> store \<Rightarrow> nat outcome \<times> store" where
  "File_writeUIntLE = File_writeNumber Buffer_writeUIntLE"

definition File_writeIntBE :: "int \<Rightarrow> jsnum \<Rightarrow> nat \<Rightarrow> store \<Rightarrow> nat outcome \<times> store" where
  "File_writeIntBE = File_writeNumber Buffer_writeIntBE"

definition File_writeIntLE :: "int \<Rightarrow> jsnum \<Rightarrow> nat \<Rightarrow> store \<Rightarrow> nat outcome \<times> store" where
  "File_writeIntLE = File_writeNumber Buffer_writeIntLE"

text \<open>
  \<^verbatim>\<open>writeStringLenBE\<close>/\<^verbatim>\<open>LE\<close>: one buffer of \<^verbatim>\<open>len_size + str_len\<close> bytes, the length
  written at its start with \<open>putLen\<close>, the string behind it.
\<close>

definition File_writeStringLen ::
  "(buffer \<Rightarrow> int \<Rightarrow> nat \<Rightarrow> nat \<Rightarrow> error + buffer) \<Rightarrow>
   jsstring \<Rightarrow> jsnum \<Rightarrow> nat \<Rightarrow> store \<Rightarrow> nat outcome \<times> store" where
  "File_writeStringLen putLen str pos len_size st =
     (let str_len = Buffer_byteLength str in
      case putLen (Buffer_alloc (len_size + str_len)) (int str_len) 0 len_size of
        Inl e \<Rightarrow> (Throw e, st)
      | Inr buffer \<Rightarrow> File_write (Buffer_write buffer str len_size) pos st)"

definition File_writeStringLenBE ::
  "jsstring \<Rightarrow> jsnum \<Rightarrow> nat \<Rightarrow> store \<Rightarrow> nat outcome \<times> store" where
  "File_writeStringLenBE = File_writeStringLen Buffer_writeUIntBE"

definition File_writeStringLenLE ::
  "jsstring \<Rightarrow> jsnum \<Rightarrow> nat \<Rightarrow> store \<Rightarrow> nat outcome \<times> store" where
  "File_writeStringLenLE = File_writeStringLen Buffer_writeUIntLE"

text \<open>
  \<^verbatim>\<open>writeBufferLenBE\<close>/\<^verbatim>\<open>LE\<close>: the length in a buffer of its own, then
  \<^verbatim>\<open>Buffer.concat([len_buffer, data])\<close>.
\<close>

definition File_writeBufferLen ::
  "(buffer \<Rightarrow> int \<Rightarrow> nat \<Rightarrow> nat \<Rightarrow> error + buffer) \<Rightarrow>
   buffer \<Rightarrow> jsnum \<Rightarrow> nat \<Rightarrow> store \<Rightarrow> nat outcome \<times> store" where
  "File_writeBufferLen putLen data pos len_size st =
     (case putLen (Buffer_alloc len_size) (int (length data)) 0 len_size of
        Inl e \<Rightarrow> (Throw e, st)
      | Inr len_buffer \<Rightarrow> File_write (len_buffer @ data) pos st)"

definition File_writeBufferLenBE ::
  "buffer \<Rightarrow> jsnum \<Rightarrow> nat \<Rightarrow> store \<Rightarrow> nat outcome \<times> store" where
  "File_writeBufferLenBE = File_writeBufferLen Buffer_writeUIntBE"

definition File_writeBufferLenLE ::
  "buffer \<Rightarrow> jsnum \<Rightarrow> nat \<Rightarrow> store \<Rightarrow> nat outcome \<times> store" where
  "File_writeBufferLenLE = File_writeBufferLen Buffer_writeUIntLE"

section \<open>\<^verbatim>\<open>lib/struct.js\<close>\<close>

text \<open>
  Both executors hold \<^verbatim>\<open>this.position\<close> and \<^verbatim>\<open>this.queue\<close>; \<^verbatim>\<open>this.file\<close> is the shared
  store, passed along as the state. A queued closure is recorded as the method that
  queued it together with the arguments it captured.
\<close>

record 'f struct =
  position :: jsnum
  queue :: "'f list"

subsection \<open>\<^verbatim>\<open>Write\<close>\<close>

datatype wfield =
    WBuffer buffer
  | WString jsstring
  | WStringLenBE jsstring nat
  | WStringLenLE jsstring nat
  | WBufferLenBE buffer nat
  | WBufferLenLE buffer nat
  | WUIntBE int nat
  | WUIntLE int nat
  | WIntBE int nat
  | WIntLE int nat

text \<open>\<^verbatim>\<open>function Write(file, position)\<close> stores the position as it is given.\<close>

definition Write :: "jsnum \<Rightarrow> wfield struct" where
  "Write pos = \<lparr>position = pos, queue = []\<rparr>"

definition Write_buffer :: "buffer \<Rightarrow> wfield struct \<Rightarrow> wfield struct" where
  "Write_buffer buffer w = w\<lparr>queue := queue w @ [WBuffer buffer]\<rparr>"

definition Write_string :: "jsstring \<Rightarrow> wfield struct \<Rightarrow> wfield struct" where
  "Write_string str w = w\<lparr>queue := queue w @ [WString str]\<rparr>"

definition Write_stringLenBE :: "jsstring \<Rightarrow> nat \<Rightarrow> wfield struct \<Rightarrow> wfield struct" where
  "Write_stringLenBE str len_size w = w\<lparr>queue := queue w @ [WStringLenBE str len_size]\<rparr>"

definition Write_stringLenLE :: "jsstring \<Rightarrow> nat \<Rightarrow> wfield struct \<Rightarrow> wfield struct" where
  "Write_stringLenLE str len_size w = w\<lparr>queue := queue w @ [WStringLenLE str len_size]\<rparr>"

definition Write_bufferLenBE :: "buffer \<Rightarrow> nat \<Rightarrow> wfield struct \<Rightarrow> wfield struct" where
  "Write_bufferLenBE data len_size w = w\<lparr>queue := queue w @ [WBufferLenBE data len_size]\<rparr>"

definition Write_bufferLenLE :: "buffer \<Rightarrow> nat \<Rightarrow> wfield struct \<Rightarrow> wfield struct" where
  "Write_bufferLenLE data len_size w = w\<lparr>queue := queue w @ [WBufferLenLE data len_size]\<rparr>"

definition Write_stringLen :: "jsstring \<Rightarrow> nat \<Rightarrow> wfield struct \<Rightarrow> wfield struct" where
  "Write_stringLen = Write_stringLenBE"

definition Write_uintBE :: "int \<Rightarrow> nat \<Rightarrow> wfield struct \<Rightarrow> wfield struct" where
  "Write_uintBE v len w = w\<lparr>queue := queue w @ [WUIntBE v len]\<rparr>"

definition Write_uintLE :: "int \<Rightarrow> nat \<Rightarrow> wfield struct \<Rightarrow> wfield struct" where
  "Write_uintLE v len w = w\<lparr>queue := queue w @ [WUIntLE v len]\<rparr>"

definition Write_intBE :: "int \<Rightarrow> nat \<Rightarrow> wfield struct \<Rightarrow> wfield struct" where
  "Write_intBE v len w = w\<lparr>queue := queue w @ [WIntBE v len]\<rparr>"

definition Write_intLE :: "int \<Rightarrow> nat \<Rightarrow> wfield struct \<Rightarrow> wfield struct" where
  "Write_intLE v len w = w\<lparr>queue := queue w @ [WIntLE v len]\<rparr>"

text \<open>The body of a queued closure, run when \<^verbatim>\<open>this.position\<close> is \<open>pos\<close>.\<close>

fun run_wfield :: "wfield \<Rightarrow> jsnum \<Rightarrow> store \<Rightarrow> nat outcome \<times> store" where
  "run_wfield (WBuffer buffer) pos = File_write buffer pos"
| "run_wfield (WString str) pos = File_writeString str pos"
| "run_wfield (WStringLenBE str len_size) pos = File_writeStringLenBE str pos len_size"
| "run_wfield (WStringLenLE str len_size) pos = File_writeStringLenLE str pos len_size"
| "run_wfield (WBufferLenBE data len_size) pos = File_writeBufferLenBE data pos len_size"
| "run_wfield (WBufferLenLE data len_size) pos = File_writeBufferLenLE data pos len_size"
| "run_wfield (WUIntBE v len) pos = File_writeUIntBE v pos len"
| "run_wfield (WUIntLE v len) pos = File_writeUIntLE v pos len"
| "run_wfield (WIntBE v len) pos = File_writeIntBE v pos len"
| "run_wfield (WIntLE v len) pos = File_writeIntLE v pos len"

text \<open>
  \<^verbatim>\<open>Write.prototype.write\<close>: \<^verbatim>\<open>next\<close> shifts the queue; with nothing left it calls
  \<^verbatim>\<open>cb(null, this.position)\<close>; otherwise it runs the closure, and on its callback either
  calls \<^verbatim>\<open>cb(err)\<close> or adds \<^verbatim>\<open>written\<close> to \<^verbatim>\<open>this.position\<close> and goes on. The result is
  what happened to \<^verbatim>\<open>cb\<close>, the executor as it is left, and the store.
\<close>

fun Write_next ::
  "wfield list \<Rightarrow> jsnum \<Rightarrow> store \<Rightarrow> jsnum outcome \<times> wfield struct \<times> store" where
  "Write_next [] pos st =
     (Called (Ok pos), \<lparr>position = pos, queue = []\<rparr>, st)"
| "Write_next (fn # q) pos st =
     (case run_wfield fn pos st of
        (Throw e, st') \<Rightarrow> (Throw e, \<lparr>position = pos, queue = q\<rparr>, st')
      | (Called (Err e), st') \<Rightarrow> (Called (Err e), \<lparr>position = pos, queue = q\<rparr>, st')
      | (Called (Ok written), st') \<Rightarrow> Write_next q (jsadd pos written) st')"

definition Write_write ::
  "wfield struct \<Rightarrow> store \<Rightarrow> jsnum outcome \<times> wfield struct \<times> store" where
  "Write_write w st = Write_next (queue w) (position w) st"

subsection \<open>\<^verbatim>\<open>Read\<close>\<close>

datatype jsval = VBuffer buffer | VString jsstring | VNumber int

datatype rfield =
    RBuffer string nat
  | RString string nat
  | RUIntBE string nat
  | RUIntLE string nat
  | RIntBE string nat
  | RIntLE string nat
  | RStringLenBE string nat
  | RStringLenLE string nat
  | RBufferLenBE string nat
  | RBufferLenLE string nat

text \<open>
  The result object \<^verbatim>\<open>{}\<close>, by its own properties. \<^verbatim>\<open>result[name] = value\<close> creates or
  overwrites the property \<open>name\<close>, except for the name \<^verbatim>\<open>__proto__\<close>, which is the accessor
  inherited from \<^verbatim>\<open>Object.prototype\<close> and never becomes a property of the object.
\<close>

type_synonym result = "string \<Rightarrow> jsval option"

definition set_prop :: "result \<Rightarrow> string \<Rightarrow> jsval \<Rightarrow> result" where
  "set_prop result name v = (if name = ''__proto__'' then result else result(name \<mapsto> v))"

text \<open>\<^verbatim>\<open>function Read(file, position)\<close>: \<^verbatim>\<open>this.position = position || 0\<close>.\<close>

definition Read :: "jsnum \<Rightarrow> rfield struct" where
  "Read pos = \<lparr>position = or_zero pos, queue = []\<rparr>"

definition Read_buffer :: "string \<Rightarrow> nat \<Rightarrow> rfield struct \<Rightarrow> rfield struct" where
  "Read_buffer name len r = r\<lparr>queue := queue r @ [RBuffer name len]\<rparr>"

definition Read_string :: "string \<Rightarrow> nat \<Rightarrow> rfield struct \<Rightarrow> rfield struct" where
  "Read_string name len r = r\<lparr>queue := queue r @ [RString name len]\<rparr>"

definition Read_uintBE :: "string \<Rightarrow> nat \<Rightarrow> rfield struct \<Rightarrow> rfield struct" where
  "Read_uintBE name len r = r\<lparr>queue := queue r @ [RUIntBE name len]\<rparr>"

definition Read_uintLE :: "string \<Rightarrow> nat \<Rightarrow> rfield struct \<Rightarrow> rfield struct" where
  "Read_uintLE name len r = r\<lparr>queue := queue r @ [RUIntLE name len]\<rparr>"

definition Read_intBE :: "string \<Rightarrow> nat \<Rightarrow> rfield struct \<Rightarrow> rfield struct" where
  "Read_intBE name len r = r\<lparr>queue := queue r @ [RIntBE name len]\<rparr>"

definition Read_intLE :: "string \<Rightarrow> nat \<Rightarrow> rfield struct \<Rightarrow> rfield struct" where
  "Read_intLE name len r = r\<lparr>queue := queue r @ [RIntLE name len]\<rparr>"

definition Read_stringLenBE :: "string \<Rightarrow> nat \<Rightarrow> rfield struct \<Rightarrow> rfield struct" where
  "Read_stringLenBE name len_size r = r\<lparr>queue := queue r @ [RStringLenBE name len_size]\<rparr>"

definition Read_stringLenLE :: "string \<Rightarrow> nat \<Rightarrow> rfield struct \<Rightarrow> rfield struct" where
  "Read_stringLenLE name len_size r = r\<lparr>queue := queue r @ [RStringLenLE name len_size]\<rparr>"

definition Read_bufferLenBE :: "string \<Rightarrow> nat \<Rightarrow> rfield struct \<Rightarrow> rfield struct" where
  "Read_bufferLenBE name len_size r = r\<lparr>queue := queue r @ [RBufferLenBE name len_size]\<rparr>"

definition Read_bufferLenLE :: "string \<Rightarrow> nat \<Rightarrow> rfield struct \<Rightarrow> rfield struct" where
  "Read_bufferLenLE name len_size r = r\<lparr>queue := queue r @ [RBufferLenLE name len_size]\<rparr>"

text \<open>
  Every queued closure of \<^verbatim>\<open>Read\<close> hands the method the callback
  \<^verbatim>\<open>(err, value, bytesRead) => { done(err, name, value, bytesRead); }\<close>.
\<close>

definition named ::
  "string \<Rightarrow> ('a \<Rightarrow> jsval) \<Rightarrow> ('a \<times> nat) outcome \<times> store \<Rightarrow>
   (string \<times> jsval \<times> nat) outcome \<times> store" where
  "named name wrap r =
     then_call r (\<lambda>c st'.
       case c of
         Err e \<Rightarrow> (Called (Err e), st')
       | Ok (v, bytesRead) \<Rightarrow> (Called (Ok (name, wrap v, bytesRead)), st'))"

fun run_rfield ::
  "rfield \<Rightarrow> jsnum \<Rightarrow> store \<Rightarrow> (string \<times> jsval \<times> nat) outcome \<times> store" where
  "run_rfield (RBuffer name len) pos st = named name VBuffer (File_read pos len st)"
| "run_rfield (RString name len) pos st =
     named name VString (File_readString pos len st)"
| "run_rfield (RUIntBE name len) pos st =
     named name VNumber (File_readUIntBE pos len st)"
| "run_rfield (RUIntLE name len) pos st =
     named name VNumber (File_readUIntLE pos len st)"
| "run_rfield (RIntBE name len) pos st =
     named name VNumber (File_readIntBE pos len st)"
| "run_rfield (RIntLE name len) pos st =
     named name VNumber (File_readIntLE pos len st)"
| "run_rfield (RStringLenBE name len_size) pos st =
     named name VString (File_readStringLenBE pos len_size st)"
| "run_rfield (RStringLenLE name len_size) pos st =
     named name VString (File_readStringLenLE pos len_size st)"
| "run_rfield (RBufferLenBE name len_size) pos st =
     named name VBuffer (File_readBufferLenBE pos len_size st)"
| "run_rfield (RBufferLenLE name len_size) pos st =
     named name VBuffer (File_readBufferLenLE pos len_size st)"

text \<open>
  \<^verbatim>\<open>Read.prototype.read\<close>: as \<^verbatim>\<open>write\<close>, with \<^verbatim>\<open>result\<close> local to the call; at the end
  \<^verbatim>\<open>cb(null, result, this.position)\<close>, on an error \<^verbatim>\<open>cb(err)\<close> alone.
\<close>

fun Read_next ::
  "rfield list \<Rightarrow> jsnum \<Rightarrow> result \<Rightarrow> store \<Rightarrow>
   (result \<times> jsnum) outcome \<times> rfield struct \<times> store" where
  "Read_next [] pos result st =
     (Called (Ok (result, pos)), \<lparr>position = pos, queue = []\<rparr>, st)"
| "Read_next (fn # q) pos result st =
     (case run_rfield fn pos st of
        (Throw e, st') \<Rightarrow> (Throw e, \<lparr>position = pos, queue = q\<rparr>, st')
      | (Called (Err e), st') \<Rightarrow> (Called (Err e), \<lparr>position = pos, queue = q\<rparr>, st')
      | (Called (Ok (name, v, bytesRead)), st') \<Rightarrow>
          Read_next q (jsadd pos bytesRead) (set_prop result name v) st')"

definition Read_read ::
  "rfield struct \<Rightarrow> store \<Rightarrow> (result \<times> jsnum) outcome \<times> rfield struct \<times> store" where
  "Read_read r st = Read_next (queue r) (position r) Map.empty st"

subsection \<open>The factories of \<^verbatim>\<open>lib/file.js\<close>\<close>

text \<open>\<^verbatim>\<open>return new Struct.Read(this, pos || 0)\<close> and \<^verbatim>\<open>return new Struct.Write(this, pos || 0)\<close>.\<close>

definition createReadStruct :: "jsnum \<Rightarrow> rfield struct" where
  "createReadStruct pos = Read (or_zero pos)"

definition createWriteStruct :: "jsnum \<Rightarrow> wfield struct" where
  "createWriteStruct pos = Write (or_zero pos)"

text \<open>An ASCII literal as a JavaScript string.\<close>

definition js :: "string \<Rightarrow> jsstring" where
  "js s = map of_char s"

text \<open>A freshly opened file with the given bytes, on which every call succeeds.\<close>

definition file_of :: "buffer \<Rightarrow> store" where
  "file_of c = \<lparr>content = c, fpos = 0, faults = [], iolog = []\<rparr>"

section \<open>Notions used to state the properties\<close>

text \<open>
  None of the following is part of the program. \<open>field_ok\<close> says that the \<^verbatim>\<open>Buffer\<close>
  methods accept the arguments of a write field, \<open>field_bytes\<close> gives the bytes the field
  then hands to \<^verbatim>\<open>fs.write\<close>; both are justified against \<open>run_wfield\<close> below
  (\<open>run_wfield_eq\<close>).
\<close>

fun field_ok :: "wfield \<Rightarrow> bool" where
  "field_ok (WBuffer buffer) = True"
| "field_ok (WString str) = True"
| "field_ok (WStringLenBE str w) = (1 \<le> w \<and> w \<le> 6 \<and> int (Buffer_byteLength str) < 2 ^ (8 * w))"
| "field_ok (WStringLenLE str w) = (1 \<le> w \<and> w \<le> 6 \<and> int (Buffer_byteLength str) < 2 ^ (8 * w))"
| "field_ok (WBufferLenBE data w) = (1 \<le> w \<and> w \<le> 6 \<and> int (length data) < 2 ^ (8 * w))"
| "field_ok (WBufferLenLE data w) = (1 \<le> w \<and> w \<le> 6 \<and> int (length data) < 2 ^ (8 * w))"
| "field_ok (WUIntBE v w) = (1 \<le> w \<and> w \<le> 6 \<and> 0 \<le> v \<and> v < 2 ^ (8 * w))"
| "field_ok (WUIntLE v w) = (1 \<le> w \<and> w \<le> 6 \<and> 0 \<le> v \<and> v < 2 ^ (8 * w))"
| "field_ok (WIntBE v w) = (1 \<le> w \<and> w \<le> 6 \<and> - (2 ^ (8 * w - 1)) \<le> v \<and> v < 2 ^ (8 * w - 1))"
| "field_ok (WIntLE v w) = (1 \<le> w \<and> w \<le> 6 \<and> - (2 ^ (8 * w - 1)) \<le> v \<and> v < 2 ^ (8 * w - 1))"

fun field_bytes :: "wfield \<Rightarrow> buffer" where
  "field_bytes (WBuffer buffer) = buffer"
| "field_bytes (WString str) = utf8_encode str"
| "field_bytes (WStringLenBE str w) =
     rev (le_bytes w (int (Buffer_byteLength str))) @ utf8_encode str"
| "field_bytes (WStringLenLE str w) = le_bytes w (int (Buffer_byteLength str)) @ utf8_encode str"
| "field_bytes (WBufferLenBE data w) = rev (le_bytes w (int (length data))) @ data"
| "field_bytes (WBufferLenLE data w) = le_bytes w (int (length data)) @ data"
| "field_bytes (WUIntBE v w) = rev (le_bytes w v)"
| "field_bytes (WUIntLE v w) = le_bytes w v"
| "field_bytes (WIntBE v w) = rev (le_bytes w v)"
| "field_bytes (WIntLE v w) = le_bytes w v"

definition field_width :: "wfield \<Rightarrow> nat" where
  "field_width f = length (field_bytes f)"

text \<open>
  The read field of the same kind and width as a write field, under a given name, and
  the value the write field carries. A string is read back by its byte length.
\<close>

fun reader :: "string \<Rightarrow> wfield \<Rightarrow> rfield" where
  "reader name (WBuffer buffer) = RBuffer name (length buffer)"
| "reader name (WString str) = RString name (Buffer_byteLength str)"
| "reader name (WStringLenBE str w) = RStringLenBE name w"
| "reader name (WStringLenLE str w) = RStringLenLE name w"
| "reader name (WBufferLenBE data w) = RBufferLenBE name w"
| "reader name (WBufferLenLE data w) = RBufferLenLE name w"
| "reader name (WUIntBE v w) = RUIntBE name w"
| "reader name (WUIntLE v w) = RUIntLE name w"
| "reader name (WIntBE v w) = RIntBE name w"
| "reader name (WIntLE v w) = RIntLE name w"

fun value_of :: "wfield \<Rightarrow> jsval" where
  "value_of (WBuffer buffer) = VBuffer buffer"
| "value_of (WString str) = VString str"
| "value_of (WStringLenBE str w) = VString str"
| "value_of (WStringLenLE str w) = VString str"
| "value_of (WBufferLenBE data w) = VBuffer data"
| "value_of (WBufferLenLE data w) = VBuffer data"
| "value_of (WUIntBE v w) = VNumber v"
| "value_of (WUIntLE v w) = VNumber v"
| "value_of (WIntBE v w) = VNumber v"
| "value_of (WIntLE v w) = VNumber v"

text \<open>
  The fields the round trip is stated for: text without lone surrogates, and no
  length-prefixed buffer.
\<close>

fun plain :: "wfield \<Rightarrow> bool" where
  "plain (WString str) = list_all scalar str"
| "plain (WStringLenBE str w) = list_all scalar str"
| "plain (WStringLenLE str w) = list_all scalar str"
| "plain (WBufferLenBE data w) = False"
| "plain (WBufferLenLE data w) = False"
| "plain f = True"

text \<open>
  The log of issued calls: where a call was issued, how many bytes it moved, and the
  bytes of a write. \<open>chained p es\<close>: every call of \<open>es\<close> was issued at \<open>p\<close> plus the bytes
  moved by the calls before it.
\<close>

fun ev_pos :: "io_event \<Rightarrow> jsnum" where
  "ev_pos (FsWrite pos data n) = pos"
| "ev_pos (FsRead pos len n) = pos"

fun ev_moved :: "io_event \<Rightarrow> nat" where
  "ev_moved (FsWrite pos data n) = (case n of None \<Rightarrow> 0 | Some k \<Rightarrow> k)"
| "ev_moved (FsRead pos len n) = (case n of None \<Rightarrow> 0 | Some k \<Rightarrow> k)"


definition moved :: "io_event list \<Rightarrow> nat" where
  "moved es = sum_list (map ev_moved es)"

fun chained :: "nat \<Rightarrow> io_event list \<Rightarrow> bool" where
  "chained p [] = True"
| "chained p (e # es) = (ev_pos e = Num p \<and> chained (p + ev_moved e) es)"

text \<open>The log entries of a write struct whose fields all succeed, from offset \<open>p\<close> on.\<close>

fun write_events :: "nat \<Rightarrow> wfield list \<Rightarrow> io_event list" where
  "write_events p [] = []"
| "write_events p (f # q) =
     FsWrite (Num p) (field_bytes f) (Some (field_width f)) # write_events (p + field_width f) q"

text \<open>
  \<open>io_spec p st r cnt\<close>: the operation that started at offset \<open>p\<close> on store \<open>st\<close> and ended
  as \<open>r\<close> has issued its calls one behind the other from \<open>p\<close> on, and what it reports to
  its callback as the byte count (\<open>cnt\<close> of the results) is the number of bytes they moved.
\<close>

definition io_spec :: "nat \<Rightarrow> store \<Rightarrow> 'a outcome \<times> store \<Rightarrow> ('a \<Rightarrow> nat) \<Rightarrow> bool" where
  "io_spec p st r cnt =
     (\<exists>es. iolog (snd r) = iolog st @ es \<and> chained p es
        \<and> (\<forall>a. fst r = Called (Ok a) \<longrightarrow> cnt a = moved es))"

text \<open>
  \<open>holds_at st p D\<close>: the file holds the bytes \<open>D\<close> at offset \<open>p\<close>. \<open>stored res nfs\<close>: the
  result object after the values of the named fields \<open>nfs\<close> have been assigned in order.
\<close>

definition holds_at :: "store \<Rightarrow> nat \<Rightarrow> buffer \<Rightarrow> bool" where
  "holds_at st p D = (take (length D) (drop p (content st)) = D)"

definition stored :: "result \<Rightarrow> (string \<times> wfield) list \<Rightarrow> result" where
  "stored res nfs = foldl (\<lambda>r (n, f). set_prop r n (value_of f)) res nfs"

text \<open>The struct of the README, with the names its read struct uses.\<close>

definition readme_fields :: "(string \<times> wfield) list" where
  "readme_fields =
     [(''code'', WUIntLE 123 1), (''op'', WUIntBE 321 2), (''title'', WString (js ''Hello'')),
      (''content'', WStringLenBE (js ''Hello World!'') 2)]"



section \<open>Unfolding the layers\<close>

lemmas struct_defs = Write_def Read_def Write_buffer_def Write_string_def Write_stringLenBE_def
  Write_stringLenLE_def Write_bufferLenBE_def Write_bufferLenLE_def Write_stringLen_def
  Write_uintBE_def Write_uintLE_def Write_intBE_def Write_intLE_def
  Read_buffer_def Read_string_def Read_uintBE_def Read_uintLE_def Read_intBE_def Read_intLE_def
  Read_stringLenBE_def Read_stringLenLE_def Read_bufferLenBE_def Read_bufferLenLE_def
  createReadStruct_def createWriteStruct_def Write_write_def Read_read_def

lemmas File_write_defs = File_write_def File_writeString_def File_writeNumber_def
  File_writeUIntBE_def File_writeUIntLE_def File_writeIntBE_def File_writeIntLE_def
  File_writeStringLen_def File_writeStringLenBE_def File_writeStringLenLE_def
  File_writeBufferLen_def File_writeBufferLenBE_def File_writeBufferLenLE_def

lemmas File_read_defs = File_read_def File_readString_def File_readNumber_def
  File_readUIntBE_def File_readUIntLE_def File_readIntBE_def File_readIntLE_def
  File_readStringLen_def File_readStringLenBE_def File_readStringLenLE_def
  File_readBufferLen_def File_readBufferLenBE_def File_readBufferLenLE_def
  named_def then_call_def

lemmas Buffer_defs = Buffer_alloc_def Buffer_byteLength_def Buffer_toString_def Buffer_write_def
  Buffer_put_def Buffer_get_def Buffer_writeUIntBE_def Buffer_writeUIntLE_def
  Buffer_writeIntBE_def Buffer_writeIntLE_def Buffer_readUIntBE_def Buffer_readUIntLE_def
  Buffer_readIntBE_def Buffer_readIntLE_def splice_def

lemmas fs_defs = fs_write_def fs_read_def next_fault_def fs_offset_def fs_advance_def
  write_at_def file_of_def

section \<open>The codecs\<close>

lemma length_le_bytes [simp]: "length (le_bytes n v) = n"
  by (induction n arbitrary: v) auto

lemma le_value_le_bytes: "le_value (le_bytes n v) = v mod 256 ^ n"
proof (induction n arbitrary: v)
  case 0
  then show ?case by simp
next
  case (Suc n)
  have "uint (of_int (v mod 256) :: byte) = v mod 256"
    by (simp add: uint_word_of_int take_bit_eq_mod)
  then show ?case
    using Suc.IH [of "v div 256"]
    by (simp add: zmod_zmult2_eq)
qed

lemma pow256: "(256::int) ^ n = 2 ^ (8 * n)"
  by (simp add: power_mult)

lemma unsigned_roundtrip:
  "0 \<le> v \<Longrightarrow> v < 2 ^ (8 * n) \<Longrightarrow> le_value (le_bytes n v) = v"
  by (simp add: le_value_le_bytes pow256)

lemma signed_roundtrip:
  assumes "1 \<le> n" "- (2 ^ (8 * n - 1)) \<le> v" "v < 2 ^ (8 * n - 1)"
  shows "(let u = le_value (le_bytes n v) in if 2 ^ (8 * n - 1) \<le> u then u - 2 ^ (8 * n) else u) = v"
proof -
  have half: "(2::int) ^ (8 * n) = 2 * 2 ^ (8 * n - 1)"
    using assms(1) power_Suc [of "2::int" "8 * n - 1"] by simp
  show ?thesis
  proof (cases "0 \<le> v")
    case True
    then have "le_value (le_bytes n v) = v"
      using assms(3) half by (simp add: le_value_le_bytes pow256)
    then show ?thesis using assms(3) by simp
  next
    case False
    then have "v mod 2 ^ (8 * n) = v + 2 ^ (8 * n)"
      using assms(2) half
      by (smt (verit) mod_add_self2 mod_pos_pos_trivial)
    then have "le_value (le_bytes n v) = v + 2 ^ (8 * n)"
      by (simp add: le_value_le_bytes pow256)
    then show ?thesis using assms(2) half False by simp
  qed
qed

subsection \<open>UTF-8: decoding what was encoded\<close>

lemma digits2: "(c::nat) = c div 64 * 64 + c mod 64"
  by simp

lemma digits3: "(c::nat) = c div 4096 * 4096 + c div 64 mod 64 * 64 + c mod 64"
proof -
  define d where "d = c div 64"
  define a where "a = d div 64"
  define b where "b = d mod 64"
  define r where "r = c mod 64"
  have "d = a * 64 + b" by (simp add: a_def b_def)
  moreover have "c = d * 64 + r" by (simp add: d_def r_def)
  ultimately have "c = a * 4096 + b * 64 + r" by simp
  moreover have "c div 4096 = a" by (simp add: a_def d_def div_mult2_eq)
  ultimately show ?thesis by (simp add: b_def d_def r_def)
qed

lemma digits4:
  "(c::nat) = c div 262144 * 262144 + c div 4096 mod 64 * 4096 + c div 64 mod 64 * 64 + c mod 64"
proof -
  define d where "d = c div 4096"
  define a where "a = d div 64"
  define b where "b = d mod 64"
  define r where "r = c div 64 mod 64 * 64 + c mod 64"
  have "d = a * 64 + b" by (simp add: a_def b_def)
  moreover have "c = d * 4096 + r" using digits3 [of c] by (simp add: d_def r_def)
  ultimately have "c = a * 262144 + b * 4096 + r" by simp
  moreover have "c div 262144 = a" by (simp add: a_def d_def div_mult2_eq)
  ultimately show ?thesis by (simp add: b_def d_def r_def)
qed

lemma step2_digits:
  assumes "2 \<le> q" "q < 32" "r < 64"
  shows "utf8_step (0xC0 + q) ((0x80 + r) # bs) = (q * 64 + r, 1)"
  using assms by (simp add: utf8_step_def lead_def)

lemma step3_digits:
  assumes "q1 < 16" "q2 < 64" "r < 64" "0x800 \<le> q1 * 4096 + q2 * 64 + r"
    "q1 * 4096 + q2 * 64 + r < 0xD800 \<or> 0xE000 \<le> q1 * 4096 + q2 * 64 + r"
  shows "utf8_step (0xE0 + q1) ((0x80 + q2) # (0x80 + r) # bs) = (q1 * 4096 + q2 * 64 + r, 2)"
proof -
  have cont: "\<not> (0x80 + r < 0x80 \<or> 0xBF < 0x80 + r)" using assms(3) by simp
  consider "q1 = 0" "32 \<le> q2" | "q1 = 13" "q2 < 32" | "1 \<le> q1" "q1 \<noteq> 13"
    using assms by linarith
  then show ?thesis
  proof cases
    case 1
    then show ?thesis using assms(2,3) by (simp add: utf8_step_def lead_def)
  next
    case 2
    then show ?thesis using assms(2,3) by (simp add: utf8_step_def lead_def)
  next
    case 3
    then show ?thesis using assms(1,2,3) by (simp add: utf8_step_def lead_def)
  qed
qed

lemma step4_digits:
  assumes "q1 < 8" "q2 < 64" "q3 < 64" "r < 64"
    "0x10000 \<le> q1 * 262144 + q2 * 4096 + q3 * 64 + r"
    "q1 * 262144 + q2 * 4096 + q3 * 64 + r \<le> 0x10FFFF"
  shows "utf8_step (0xF0 + q1) ((0x80 + q2) # (0x80 + q3) # (0x80 + r) # bs)
         = (q1 * 262144 + q2 * 4096 + q3 * 64 + r, 3)"
proof -
  consider "q1 = 0" "16 \<le> q2" | "q1 = 4" "q2 < 16" | "1 \<le> q1" "q1 \<le> 3"
    using assms by linarith
  then show ?thesis
  proof cases
    case 1
    then show ?thesis using assms(2,3,4) by (simp add: utf8_step_def lead_def)
  next
    case 2
    then show ?thesis using assms(2,3,4) by (simp add: utf8_step_def lead_def)
  next
    case 3
    then show ?thesis using assms(1,2,3,4) by (simp add: utf8_step_def lead_def)
  qed
qed

lemma utf8_dec_cp: "scalar c \<Longrightarrow> utf8_dec (utf8_cp c @ bs) = c # utf8_dec bs"
proof -
  assume s: "scalar c"
  consider "c < 0x80" | "0x80 \<le> c" "c < 0x800"
    | "0x800 \<le> c" "c < 0x10000" "c < 0xD800 \<or> 0xE000 \<le> c"
    | "0x10000 \<le> c" "c \<le> 0x10FFFF"
    using s unfolding scalar_def by linarith
  then show ?thesis
  proof cases
    case 1
    then show ?thesis by (simp add: utf8_cp_def utf8_step_def)
  next
    case 2
    define q where "q = c div 64"
    define r where "r = c mod 64"
    have c: "c = q * 64 + r" by (simp add: q_def r_def)
    have r: "r < 64" by (simp add: r_def)
    have q: "2 \<le> q" "q < 32" using 2 r unfolding c by linarith+
    have cp: "utf8_cp c = [0xC0 + q, 0x80 + r]"
      using 2 by (simp add: utf8_cp_def q_def r_def)
    show ?thesis
      unfolding cp using step2_digits [OF q r, of bs] by (simp add: c)
  next
    case 3
    define q1 where "q1 = c div 4096"
    define q2 where "q2 = c div 64 mod 64"
    define r where "r = c mod 64"
    have c: "c = q1 * 4096 + q2 * 64 + r" using digits3 [of c] by (simp add: q1_def q2_def r_def)
    have b: "q2 < 64" "r < 64" by (simp_all add: q2_def r_def)
    have q1: "q1 < 16" using 3 b unfolding c by linarith
    have cp: "utf8_cp c = [0xE0 + q1, 0x80 + q2, 0x80 + r]"
      using 3 by (simp add: utf8_cp_def q1_def q2_def r_def)
    have "utf8_step (0xE0 + q1) ((0x80 + q2) # (0x80 + r) # bs) = (c, 2)"
      using step3_digits [OF q1 b, of bs] 3 unfolding c by blast
    then show ?thesis unfolding cp by simp
  next
    case 4
    define q1 where "q1 = c div 262144"
    define q2 where "q2 = c div 4096 mod 64"
    define q3 where "q3 = c div 64 mod 64"
    define r where "r = c mod 64"
    have c: "c = q1 * 262144 + q2 * 4096 + q3 * 64 + r"
      using digits4 [of c] by (simp add: q1_def q2_def q3_def r_def)
    have b: "q2 < 64" "q3 < 64" "r < 64" by (simp_all add: q2_def q3_def r_def)
    have q1: "q1 < 8" using 4 b unfolding c by linarith
    have cp: "utf8_cp c = [0xF0 + q1, 0x80 + q2, 0x80 + q3, 0x80 + r]"
      using 4 by (simp add: utf8_cp_def q1_def q2_def q3_def r_def)
    have "utf8_step (0xF0 + q1) ((0x80 + q2) # (0x80 + q3) # (0x80 + r) # bs) = (c, 3)"
      using step4_digits [OF q1 b, of bs] 4 unfolding c by blast
    then show ?thesis unfolding cp by simp
  qed
qed

lemma utf8_cp_bytes: "b \<in> set (utf8_cp c) \<Longrightarrow> b < 256"
  unfolding utf8_cp_def
  by (simp split: if_splits; arith)

lemma unat_of_nat_byte: "b < 256 \<Longrightarrow> unat (of_nat b :: byte) = b"
  by (simp add: unat_of_nat)

lemma map_unat_of_nat: "\<forall>b\<in>set bs. b < 256 \<Longrightarrow> map unat (map of_nat bs :: byte list) = bs"
  by (induction bs) (auto simp: unat_of_nat_byte)

lemma utf8_dec_concat: "list_all scalar s \<Longrightarrow> utf8_dec (concat (map utf8_cp s)) = s"
  by (induction s) (simp_all add: utf8_dec_cp)

lemma utf8_roundtrip: "list_all scalar s \<Longrightarrow> utf8_decode (utf8_encode s) = s"
proof -
  assume s: "list_all scalar s"
  have "\<forall>b\<in>set (concat (map utf8_cp s)). b < 256"
    by (auto dest: utf8_cp_bytes)
  then have "map unat (map of_nat (concat (map utf8_cp s)) :: byte list) = concat (map utf8_cp s)"
    by (rule map_unat_of_nat)
  then have "utf8_decode (utf8_encode s) = utf8_dec (concat (map utf8_cp s))"
    by (simp only: utf8_decode_def utf8_encode_def)
  then show ?thesis using s by (simp add: utf8_dec_concat)
qed

section \<open>The write methods, field by field\<close>

lemma File_write_eq:
  "File_write data pos st =
     (if next_fault st then
        (Throw IOError,
         st\<lparr>faults := tl (faults st), iolog := iolog st @ [FsWrite pos data None]\<rparr>)
      else
        (Called (Ok (length data)),
         st\<lparr>content := write_at (content st) (fs_offset st pos) data,
            fpos := fs_advance st pos (length data),
            faults := tl (faults st),
            iolog := iolog st @ [FsWrite pos data (Some (length data))]\<rparr>))"
  by (simp add: File_write_def fs_write_def makeCallback_def)

lemma put_alloc:
  "Buffer_put big lo hi (Buffer_alloc (w + k)) v 0 w =
     (if 1 \<le> w \<and> w \<le> 6 \<and> lo \<le> v \<and> v \<le> hi
      then Inr ((if big then rev (le_bytes w v) else le_bytes w v) @ replicate k 0)
      else Inl RangeError)"
  by (auto simp: Buffer_put_def Buffer_alloc_def splice_def)

lemma put_alloc0:
  "Buffer_put big lo hi (Buffer_alloc w) v 0 w =
     (if 1 \<le> w \<and> w \<le> 6 \<and> lo \<le> v \<and> v \<le> hi
      then Inr (if big then rev (le_bytes w v) else le_bytes w v)
      else Inl RangeError)"
  using put_alloc [of big lo hi w 0 v] by simp

lemma write_after_prefix:
  "length pre = w \<Longrightarrow>
   Buffer_write (pre @ replicate (Buffer_byteLength str) 0) str w = pre @ utf8_encode str"
  by (simp add: Buffer_write_def splice_def Buffer_byteLength_def)

lemma run_wfield_eq:
  "run_wfield f pos st =
     (if field_ok f then File_write (field_bytes f) pos st else (Throw RangeError, st))"
proof (cases f)
  case (WStringLenBE str w)
  then show ?thesis
    by (auto simp: File_writeStringLenBE_def File_writeStringLen_def Buffer_writeUIntBE_def
        put_alloc write_after_prefix Let_def)
next
  case (WStringLenLE str w)
  then show ?thesis
    by (auto simp: File_writeStringLenLE_def File_writeStringLen_def Buffer_writeUIntLE_def
        put_alloc write_after_prefix Let_def)
next
  case (WBufferLenBE data w)
  then show ?thesis
    by (auto simp: File_writeBufferLenBE_def File_writeBufferLen_def Buffer_writeUIntBE_def
        put_alloc0)
next
  case (WBufferLenLE data w)
  then show ?thesis
    by (auto simp: File_writeBufferLenLE_def File_writeBufferLen_def Buffer_writeUIntLE_def
        put_alloc0)
next
  case (WUIntBE v w)
  then show ?thesis
    by (auto simp: File_writeUIntBE_def File_writeNumber_def Buffer_writeUIntBE_def put_alloc0)
next
  case (WUIntLE v w)
  then show ?thesis
    by (auto simp: File_writeUIntLE_def File_writeNumber_def Buffer_writeUIntLE_def put_alloc0)
next
  case (WIntBE v w)
  then show ?thesis
    by (auto simp: File_writeIntBE_def File_writeNumber_def Buffer_writeIntBE_def put_alloc0)
next
  case (WIntLE v w)
  then show ?thesis
    by (auto simp: File_writeIntLE_def File_writeNumber_def Buffer_writeIntLE_def put_alloc0)
qed (simp_all add: File_writeString_def)

section \<open>The log of issued calls\<close>

lemma moved_append [simp]: "moved (es @ es') = moved es + moved es'"
  by (simp add: moved_def)

lemma moved_Nil [simp]: "moved [] = 0"
  by (simp add: moved_def)

lemma moved_Cons [simp]: "moved (e # es) = ev_moved e + moved es"
  by (simp add: moved_def)




lemma io_spec_weaken:
  "io_spec p st r cnt \<Longrightarrow> (\<And>a. fst r = Called (Ok a) \<Longrightarrow> cnt' a = cnt a) \<Longrightarrow> io_spec p st r cnt'"
  by (auto simp: io_spec_def)










section \<open>The write loop\<close>

lemma write_at_Nil [simp]: "write_at c p [] = c"
  by (simp add: write_at_def)

lemma write_at_write_at:
  "write_at (write_at c p a) (p + length a) b = write_at c p (a @ b)"
proof (cases "a = [] \<or> b = []")
  case True
  then show ?thesis by (auto simp: write_at_def)
next
  case False
  define X where "X = c @ replicate (p - length c) 0"
  define A where "A = take p X"
  have lenA: "length A = p" by (simp add: A_def X_def)
  have wa: "write_at c p a = A @ a @ drop (p + length a) X"
    using False by (simp add: write_at_def splice_def A_def X_def)
  have "write_at (A @ a @ drop (p + length a) X) (p + length a) b
        = A @ a @ b @ drop (p + length a + length b) X"
    using False lenA by (simp add: write_at_def splice_def add.commute)
  moreover have "write_at c p (a @ b) = A @ (a @ b) @ drop (p + length (a @ b)) X"
    using False by (simp add: write_at_def splice_def A_def X_def)
  ultimately show ?thesis by (simp add: wa add.assoc)
qed

lemma Write_next_append:
  "Write_next pre pos st = (Called (Ok p), w1, st1) \<Longrightarrow>
   Write_next (pre @ rest) pos st = Write_next rest p st1"
proof (induction pre arbitrary: pos st)
  case Nil
  then show ?case by simp
next
  case (Cons f pre)
  then show ?case
    by (auto split: prod.splits outcome.splits call.splits)
qed

lemma Write_next_ok:
  "list_all field_ok q \<Longrightarrow> list_all Not (take (length q) (faults st)) \<Longrightarrow>
   Write_next q (Num p) st =
     (Called (Ok (Num (p + sum_list (map field_width q)))),
      \<lparr>position = Num (p + sum_list (map field_width q)), queue = []\<rparr>,
      st\<lparr>content := write_at (content st) p (concat (map field_bytes q)),
         faults := drop (length q) (faults st),
         iolog := iolog st @ write_events p q\<rparr>)"
proof (induction q arbitrary: p st)
  case Nil
  then show ?case by simp
next
  case (Cons f q)
  let ?st1 = "st\<lparr>content := write_at (content st) p (field_bytes f),
            faults := tl (faults st),
            iolog := iolog st @ [FsWrite (Num p) (field_bytes f) (Some (field_width f))]\<rparr>"
  have nf: "\<not> next_fault st" and rest: "list_all Not (take (length q) (tl (faults st)))"
    using Cons.prems(2) by (cases "faults st"; simp add: next_fault_def)+
  have r: "run_wfield f (Num p) st = (Called (Ok (field_width f)), ?st1)"
    using Cons.prems(1) nf
    by (simp add: run_wfield_eq File_write_eq fs_offset_def fs_advance_def field_width_def)
  have "list_all Not (take (length q) (faults ?st1))" using rest by simp
  from Cons.IH [OF _ this, of "p + field_width f"] Cons.prems(1)
  show ?case
    using r by (simp add: write_at_write_at [symmetric] field_width_def add.assoc drop_Suc)
qed

section \<open>Reading back what was written\<close>

lemma holds_at_append:
  "holds_at st p (a @ b) = (holds_at st p a \<and> holds_at st (p + length a) b)"
proof
  assume h: "holds_at st p (a @ b)"
  then have t: "take (length a + length b) (drop p (content st)) = a @ b"
    by (simp add: holds_at_def)
  have "take (length a) (take (length a + length b) (drop p (content st))) = a"
    unfolding t by simp
  then have 1: "take (length a) (drop p (content st)) = a" by simp
  have "drop (length a) (take (length a + length b) (drop p (content st))) = b"
    unfolding t by simp
  then have 2: "take (length b) (drop (p + length a) (content st)) = b"
    by (simp add: drop_take add.commute)
  from 1 2 show "holds_at st p a \<and> holds_at st (p + length a) b"
    by (simp add: holds_at_def)
next
  assume h: "holds_at st p a \<and> holds_at st (p + length a) b"
  then have 1: "take (length a) (drop p (content st)) = a"
    and 2: "take (length b) (drop (length a) (drop p (content st))) = b"
    by (simp_all add: holds_at_def add.commute)
  have "take (length a + length b) (drop p (content st))
      = take (length a) (drop p (content st)) @ take (length b) (drop (length a) (drop p (content st)))"
    by (simp add: take_add)
  then show "holds_at st p (a @ b)" using 1 2 by (simp add: holds_at_def)
qed

lemma holds_at_cong: "content st' = content st \<Longrightarrow> holds_at st' p D = holds_at st p D"
  by (simp add: holds_at_def)

lemma File_read_at:
  assumes "holds_at st p D" "faults st = []"
  shows "\<exists>st'. File_read (Num p) (length D) st = (Called (Ok (D, length D)), st')
           \<and> content st' = content st \<and> faults st' = []"
proof (cases "D = []")
  case True
  then show ?thesis using assms(2) by (simp add: File_read_def fs_read_def makeCallback_def)
next
  case False
  have "take (length D) (drop p (content st)) = D" using assms(1) by (simp add: holds_at_def)
  then show ?thesis
    using False assms(2)
    by (simp add: File_read_def fs_read_def makeCallback_def next_fault_def fs_offset_def Let_def)
qed

lemma File_readString_at:
  assumes "holds_at st p (utf8_encode s)" "faults st = []" "list_all scalar s"
  shows "\<exists>st'. File_readString (Num p) (Buffer_byteLength s) st
             = (Called (Ok (s, Buffer_byteLength s)), st')
           \<and> content st' = content st \<and> faults st' = []"
proof -
  from File_read_at [OF assms(1,2)] obtain st' where
    "File_read (Num p) (length (utf8_encode s)) st
       = (Called (Ok (utf8_encode s, length (utf8_encode s))), st')"
    "content st' = content st" "faults st' = []" by blast
  then show ?thesis
    using assms(3)
    by (simp add: File_readString_def then_call_def makeCallback_def Buffer_byteLength_def
        Buffer_toString_def utf8_roundtrip)
qed

lemma File_readNumber_at:
  assumes "holds_at st p D" "faults st = []" "decode D 0 (length D) = Inr v"
  shows "\<exists>st'. File_readNumber decode (Num p) (length D) st = (Called (Ok (v, length D)), st')
           \<and> content st' = content st \<and> faults st' = []"
proof -
  from File_read_at [OF assms(1,2)] obtain st' where
    "File_read (Num p) (length D) st = (Called (Ok (D, length D)), st')"
    "content st' = content st" "faults st' = []" by blast
  then show ?thesis
    using assms(3) by (simp add: File_readNumber_def then_call_def makeCallback_def)
qed

lemma get_unsigned:
  assumes "1 \<le> w" "w \<le> 6" "0 \<le> v" "v < 2 ^ (8 * w)"
  shows "Buffer_get big False (if big then rev (le_bytes w v) else le_bytes w v) 0 w = Inr v"
  using assms by (simp add: Buffer_get_def unsigned_roundtrip)

lemma get_signed:
  assumes "1 \<le> w" "w \<le> 6" "- (2 ^ (8 * w - 1)) \<le> v" "v < 2 ^ (8 * w - 1)"
  shows "Buffer_get big True (if big then rev (le_bytes w v) else le_bytes w v) 0 w = Inr v"
  using assms signed_roundtrip [OF assms(1,3,4)]
  by (cases "2 ^ (8 * w - 1) \<le> le_value (le_bytes w v)") (simp_all add: Buffer_get_def Let_def)

lemma File_readStringLen_at:
  assumes "holds_at st p ((if big then rev (le_bytes w (int (Buffer_byteLength s)))
                            else le_bytes w (int (Buffer_byteLength s))) @ utf8_encode s)"
    "faults st = []" "1 \<le> w" "w \<le> 6" "int (Buffer_byteLength s) < 2 ^ (8 * w)"
    "list_all scalar s"
  shows "\<exists>st'. File_readStringLen (File_readNumber (Buffer_get big False)) (Num p) w st
             = (Called (Ok (s, w + Buffer_byteLength s)), st')
           \<and> content st' = content st \<and> faults st' = []"
proof -
  let ?P = "if big then rev (le_bytes w (int (Buffer_byteLength s)))
            else le_bytes w (int (Buffer_byteLength s))"
  have len: "length ?P = w" by simp
  have h: "holds_at st p ?P" "holds_at st (p + w) (utf8_encode s)"
    using assms(1) unfolding holds_at_append len by simp_all
  have "Buffer_get big False ?P 0 (length ?P) = Inr (int (Buffer_byteLength s))"
    unfolding len using assms(3,4,5) by (intro get_unsigned) simp_all
  from File_readNumber_at [of st p ?P "Buffer_get big False" "int (Buffer_byteLength s)",
      OF h(1) assms(2) this]
  obtain st1 where st1:
    "File_readNumber (Buffer_get big False) (Num p) w st
       = (Called (Ok (int (Buffer_byteLength s), w)), st1)"
    "content st1 = content st" "faults st1 = []" unfolding len by blast
  have h1: "holds_at st1 (p + w) (utf8_encode s)"
    using h(2) st1(2) by (simp add: holds_at_def)
  from File_readString_at [OF h1 st1(3) assms(6)] obtain st2 where st2:
    "File_readString (Num (p + w)) (Buffer_byteLength s) st1
       = (Called (Ok (s, Buffer_byteLength s)), st2)"
    "content st2 = content st1" "faults st2 = []" by blast
  show ?thesis
    using st1 st2
    by (simp add: File_readStringLen_def then_call_def makeCallback_def)
qed

lemma Buffer_read_eqs:
  "Buffer_readUIntBE = Buffer_get True False" "Buffer_readUIntLE = Buffer_get False False"
  "Buffer_readIntBE = Buffer_get True True" "Buffer_readIntLE = Buffer_get False True"
  by (intro ext, simp add: Buffer_readUIntBE_def Buffer_readUIntLE_def Buffer_readIntBE_def
      Buffer_readIntLE_def)+

lemma run_reader:
  assumes "holds_at st p (field_bytes f)" "faults st = []" "field_ok f" "plain f"
  shows "\<exists>st'. run_rfield (reader n f) (Num p) st = (Called (Ok (n, value_of f, field_width f)), st')
           \<and> content st' = content st \<and> faults st' = []"
proof (cases f)
  case (WBuffer b)
  from File_read_at [of st p b] assms show ?thesis
    unfolding WBuffer by (auto simp: named_def then_call_def field_width_def)
next
  case (WString s)
  from File_readString_at [of st p s] assms show ?thesis
    unfolding WString by (auto simp: named_def then_call_def field_width_def Buffer_byteLength_def)
next
  case (WStringLenBE s w)
  from File_readStringLen_at [of st p True w s] assms show ?thesis
    unfolding WStringLenBE
    by (auto simp: named_def then_call_def field_width_def Buffer_byteLength_def
        File_readStringLenBE_def File_readUIntBE_def Buffer_read_eqs)
next
  case (WStringLenLE s w)
  from File_readStringLen_at [of st p False w s] assms show ?thesis
    unfolding WStringLenLE
    by (auto simp: named_def then_call_def field_width_def Buffer_byteLength_def
        File_readStringLenLE_def File_readUIntLE_def Buffer_read_eqs)
next
  case (WBufferLenBE d w)
  then show ?thesis using assms by simp
next
  case (WBufferLenLE d w)
  then show ?thesis using assms by simp
next
  case (WUIntBE v w)
  have "Buffer_readUIntBE (rev (le_bytes w v)) 0 (length (rev (le_bytes w v))) = Inr v"
    using get_unsigned [of w v True] assms(3) by (simp add: WUIntBE Buffer_readUIntBE_def)
  from File_readNumber_at [of st p "rev (le_bytes w v)" Buffer_readUIntBE v, OF _ assms(2) this]
    assms(1)
  show ?thesis
    unfolding WUIntBE
    by (auto simp: named_def then_call_def field_width_def File_readUIntBE_def)
next
  case (WUIntLE v w)
  have "Buffer_readUIntLE (le_bytes w v) 0 (length (le_bytes w v)) = Inr v"
    using get_unsigned [of w v False] assms(3) by (simp add: WUIntLE Buffer_readUIntLE_def)
  from File_readNumber_at [of st p "le_bytes w v" Buffer_readUIntLE v, OF _ assms(2) this]
    assms(1)
  show ?thesis
    unfolding WUIntLE
    by (auto simp: named_def then_call_def field_width_def File_readUIntLE_def)
next
  case (WIntBE v w)
  have "Buffer_readIntBE (rev (le_bytes w v)) 0 (length (rev (le_bytes w v))) = Inr v"
    using get_signed [of w v True] assms(3) by (simp add: WIntBE Buffer_readIntBE_def)
  from File_readNumber_at [of st p "rev (le_bytes w v)" Buffer_readIntBE v, OF _ assms(2) this]
    assms(1)
  show ?thesis
    unfolding WIntBE
    by (auto simp: named_def then_call_def field_width_def File_readIntBE_def)
next
  case (WIntLE v w)
  have "Buffer_readIntLE (le_bytes w v) 0 (length (le_bytes w v)) = Inr v"
    using get_signed [of w v False] assms(3) by (simp add: WIntLE Buffer_readIntLE_def)
  from File_readNumber_at [of st p "le_bytes w v" Buffer_readIntLE v, OF _ assms(2) this]
    assms(1)
  show ?thesis
    unfolding WIntLE
    by (auto simp: named_def then_call_def field_width_def File_readIntLE_def)
qed

lemma stored_simps [simp]:
  "stored res [] = res"
  "stored res ((n, f) # nfs) = stored (set_prop res n (value_of f)) nfs"
  by (simp_all add: stored_def)

lemma Read_next_readers:
  assumes "list_all (\<lambda>(n, f). field_ok f \<and> plain f) nfs"
    "holds_at st p (concat (map (\<lambda>(n, f). field_bytes f) nfs))" "faults st = []"
  shows "\<exists>st'. Read_next (map (\<lambda>(n, f). reader n f) nfs) (Num p) res st
             = (Called (Ok (stored res nfs,
                            Num (p + sum_list (map (\<lambda>(n, f). field_width f) nfs)))),
                \<lparr>position = Num (p + sum_list (map (\<lambda>(n, f). field_width f) nfs)), queue = []\<rparr>,
                st')
           \<and> content st' = content st \<and> faults st' = []"
  using assms
proof (induction nfs arbitrary: p res st)
  case Nil
  then show ?case by simp
next
  case (Cons nf nfs)
  obtain n f where nf: "nf = (n, f)" by (cases nf)
  have ok: "field_ok f" "plain f" "list_all (\<lambda>(n, f). field_ok f \<and> plain f) nfs"
    using Cons.prems(1) nf by simp_all
  have h: "holds_at st p (field_bytes f)"
    "holds_at st (p + field_width f) (concat (map (\<lambda>(n, f). field_bytes f) nfs))"
    using Cons.prems(2) nf by (simp_all add: holds_at_append field_width_def)
  from run_reader [OF h(1) Cons.prems(3) ok(1,2), of n] obtain st1 where st1:
    "run_rfield (reader n f) (Num p) st = (Called (Ok (n, value_of f, field_width f)), st1)"
    "content st1 = content st" "faults st1 = []" by blast
  have h1: "holds_at st1 (p + field_width f) (concat (map (\<lambda>(n, f). field_bytes f) nfs))"
    using h(2) st1(2) by (simp add: holds_at_def)
  from Cons.IH [OF ok(3) h1 st1(3), of "set_prop res n (value_of f)"] obtain st' where
    "Read_next (map (\<lambda>(n, f). reader n f) nfs) (Num (p + field_width f))
        (set_prop res n (value_of f)) st1
       = (Called (Ok (stored (set_prop res n (value_of f)) nfs,
                      Num (p + field_width f + sum_list (map (\<lambda>(n, f). field_width f) nfs)))),
          \<lparr>position = Num (p + field_width f + sum_list (map (\<lambda>(n, f). field_width f) nfs)),
           queue = []\<rparr>, st')"
    "content st' = content st1" "faults st' = []" by blast
  then show ?case
    using st1 nf by (simp add: add.assoc)
qed




section \<open>Evaluating concrete structs\<close>

lemma le_bytes_numeral:
  "le_bytes (numeral k) v = of_int (v mod 256) # le_bytes (pred_numeral k) (v div 256)"
  by (simp add: numeral_eq_Suc)

lemma replicate_numeral: "replicate (numeral k) x = x # replicate (pred_numeral k) x"
  by (simp add: numeral_eq_Suc)

lemmas eval_simps = le_bytes_numeral replicate_numeral Let_def

lemma hello_world_bytes:
  "utf8_encode (js ''Hello World!'') = [72, 101, 108, 108, 111, 32, 87, 111, 114, 108, 100, 33]"
  by code_simp

lemma hello_bytes: "utf8_encode (js ''Hello'') = [72, 101, 108, 108, 111]"
  by code_simp

lemma of_char_bound: "(of_char c :: nat) < 256"
proof -
  have "(of_char c :: nat) mod 256 < 256" by simp
  then show ?thesis by (simp only: of_char_mod_256)
qed

lemma scalar_of_char: "scalar (of_char c)"
proof -
  have "(of_char c :: nat) < 0xD800" using of_char_bound [of c] by linarith
  then show ?thesis unfolding scalar_def by (rule disjI1)
qed

lemma js_scalar: "list_all scalar (js s)"
  by (induction s) (simp_all add: js_def scalar_of_char)


section \<open>Fields and log entries of an executed struct\<close>

lemma length_write_events [simp]: "length (write_events p q) = length q"
  by (induction q arbitrary: p) auto






section \<open>Errors never reach the callback\<close>

lemma run_wfield_no_err: "fst (run_wfield f pos st) \<noteq> Called (Err e)"
  by (simp add: run_wfield_eq File_write_eq)

lemma Write_next_no_err: "fst (Write_next q pos st) \<noteq> Called (Err e)"
proof (induction q arbitrary: pos st)
  case Nil
  then show ?case by simp
next
  case (Cons f q)
  obtain out st' where r: "run_wfield f pos st = (out, st')" by (cases "run_wfield f pos st")
  then have "out \<noteq> Called (Err e)" for e using run_wfield_no_err [of f pos st] by simp
  then show ?case using r Cons.IH
    by (cases out) (auto split: call.splits)
qed

lemma File_read_no_err: "fst (File_read pos len st) \<noteq> Called (Err e)"
  by (auto simp: File_read_def makeCallback_def split: prod.splits call.splits)

lemma then_call_no_err:
  "(\<And>c st'. fst (k c st') \<noteq> Called (Err e)) \<Longrightarrow> fst (then_call r k) \<noteq> Called (Err e)"
  by (auto simp: then_call_def split: prod.splits outcome.splits)

lemma makeCallback_no_err: "makeCallback c \<noteq> Called (Err e)"
  by (simp add: makeCallback_def split: call.splits)

lemma File_readString_no_err: "fst (File_readString pos len st) \<noteq> Called (Err e)"
  unfolding File_readString_def
  by (rule then_call_no_err) (auto simp: makeCallback_no_err split: call.splits)

lemma File_readNumber_no_err: "fst (File_readNumber dec pos len st) \<noteq> Called (Err e)"
  unfolding File_readNumber_def
  by (rule then_call_no_err) (auto simp: makeCallback_no_err split: call.splits sum.splits)

lemma File_readStringLen_no_err:
  "fst (File_readStringLen rd pos w st) \<noteq> Called (Err e)"
  unfolding File_readStringLen_def
  by (rule then_call_no_err)
     (auto simp: makeCallback_no_err intro!: then_call_no_err split: call.splits)

lemma File_readBufferLen_no_err:
  "fst (File_readBufferLen rd pos w st) \<noteq> Called (Err e)"
  unfolding File_readBufferLen_def
  by (rule then_call_no_err)
     (auto simp: makeCallback_no_err intro!: then_call_no_err split: call.splits)

lemma named_no_err:
  "fst r \<noteq> Called (Err e) \<Longrightarrow> fst (named name wrap r) \<noteq> Called (Err e)"
  by (auto simp: named_def then_call_def split: prod.splits outcome.splits call.splits)

lemma run_rfield_no_err: "fst (run_rfield f pos st) \<noteq> Called (Err e)"
  by (cases f)
     (simp_all add: named_no_err File_read_no_err File_readString_no_err File_readNumber_no_err
        File_readStringLen_no_err File_readBufferLen_no_err
        File_readUIntBE_def File_readUIntLE_def File_readIntBE_def File_readIntLE_def
        File_readStringLenBE_def File_readStringLenLE_def
        File_readBufferLenBE_def File_readBufferLenLE_def)

lemma Read_next_no_err: "fst (Read_next q pos res st) \<noteq> Called (Err e)"
proof (induction q arbitrary: pos res st)
  case Nil
  then show ?case by simp
next
  case (Cons f q)
  obtain out st' where r: "run_rfield f pos st = (out, st')" by (cases "run_rfield f pos st")
  then have "out \<noteq> Called (Err e)" for e using run_rfield_no_err [of f pos st] by simp
  then show ?case using r Cons.IH
    by (cases out) (auto split: call.splits)
qed

section \<open>Write, then read\<close>




section \<open>The struct of the README, evaluated\<close>

lemma readme_widths: "map field_width (map snd readme_fields) = [1, 2, 5, 14]"
  by (simp add: readme_fields_def field_width_def Buffer_byteLength_def hello_bytes hello_world_bytes)





lemma hello_field:
  "field_ok (WStringLenBE (js ''Hello World!'') 2)"
  "plain (WStringLenBE (js ''Hello World!'') 2)"
  "field_bytes (WStringLenBE (js ''Hello World!'') 2)
     = [0x00, 0x0C, 0x48, 0x65, 0x6C, 0x6C, 0x6F, 0x20, 0x57, 0x6F, 0x72, 0x6C, 0x64, 0x21]"
  by (simp_all add: Buffer_byteLength_def hello_world_bytes js_scalar eval_simps)




section \<open>Round trip\<close>








section \<open>Failures of the store\<close>

text \<open>
  Claim C2 does not hold of the code. Every method of \<^verbatim>\<open>lib/file.js\<close> wraps the callback
  it is given with \<^verbatim>\<open>makeCallback\<close>, and the wrapper throws the error instead of passing
  it on. So no execution of a write or read struct ever invokes the completion callback
  with an error, whatever the struct and the store; a failing store call ends the
  execution with the exception, as the two structs of one field show on a store whose
  first call fails.
\<close>

theorem store_failure_is_thrown:
  "fst (Write_write w st) \<noteq> Called (Err e) \<and> fst (Read_read r st) \<noteq> Called (Err e)
   \<and> Write_write (Write_buffer [0x01] (Write (Num 0))) ((file_of [])\<lparr>faults := [True]\<rparr>)
     = (Throw IOError, \<lparr>position = Num 0, queue = []\<rparr>,
        \<lparr>content = [], fpos = 0, faults = [], iolog = [FsWrite (Num 0) [0x01] None]\<rparr>)
   \<and> Read_read (Read_buffer ''a'' 1 (Read (Num 0))) ((file_of [0x07])\<lparr>faults := [True]\<rparr>)
     = (Throw IOError, \<lparr>position = Num 0, queue = []\<rparr>,
        \<lparr>content = [0x07], fpos = 0, faults = [], iolog = [FsRead (Num 0) 1 None]\<rparr>)"
  by (simp add: Write_next_no_err Read_next_no_err struct_defs File_write_def File_read_defs
      fs_defs makeCallback_def eval_simps)

section \<open>Offsets\<close>



section \<open>Partial failure\<close>

text \<open>
  Claim C4. Let the fields \<open>pre\<close> and the field \<open>f\<close> behind them be accepted by the \<^verbatim>\<open>Buffer\<close>
  methods, and let the store serve the first \<open>length pre\<close> calls and fail the next one.
  Then the execution of \<open>pre @ f # post\<close> ends with the store's error; the file holds the
  bytes of \<open>pre\<close> written from \<open>start\<close> on and nothing of \<open>f\<close> or \<open>post\<close>; no call is issued after
  the failed one; the fields \<open>post\<close> stay in the queue; and the cursor is \<open>start\<close> plus the
  widths of \<open>pre\<close>, not advanced for \<open>f\<close>.
\<close>

theorem partial_failure:
  assumes "list_all field_ok pre" "field_ok f"
    and "faults st = replicate (length pre) False @ True # rest"
  shows "Write_write \<lparr>position = Num start, queue = pre @ f # post\<rparr> st =
     (Throw IOError,
      \<lparr>position = Num (start + sum_list (map field_width pre)), queue = post\<rparr>,
      st\<lparr>content := write_at (content st) start (concat (map field_bytes pre)),
         faults := rest,
         iolog := iolog st @ write_events start pre
                   @ [FsWrite (Num (start + sum_list (map field_width pre))) (field_bytes f) None]\<rparr>)"
proof -
  have nf: "list_all Not (take (length pre) (faults st))"
    using assms(3) by (simp add: list_all_iff)
  note ok = Write_next_ok [OF assms(1) nf, of start]
  show ?thesis
    unfolding Write_write_def
    using assms(2,3)
    by (simp add: Write_next_append [OF ok] run_wfield_eq File_write_eq next_fault_def)
qed

theorem partial_failure_witness:
  "list_all field_ok [WUIntLE 123 1] \<and> field_ok (WUIntBE 321 2)
   \<and> faults ((file_of [9, 9, 9])\<lparr>faults := [False, True]\<rparr>) = replicate (length [WUIntLE 123 1]) False @ True # []
   \<and> Write_write (Write_string (js ''Hello'') (Write_uintBE 321 2 (Write_uintLE 123 1 (Write (Num 0)))))
        ((file_of [9, 9, 9])\<lparr>faults := [False, True]\<rparr>)
      = (Throw IOError, \<lparr>position = Num 1, queue = [WString (js ''Hello'')]\<rparr>,
         \<lparr>content = [123, 9, 9], fpos = 0, faults = [],
          iolog = [FsWrite (Num 0) [123] (Some 1), FsWrite (Num 1) [0x01, 0x41] None]\<rparr>)"
  using partial_failure [of "[WUIntLE 123 1]" "WUIntBE 321 2"
      "(file_of [9, 9, 9])\<lparr>faults := [False, True]\<rparr>" "[]" 0 "[WString (js ''Hello'')]"]
  by (simp add: struct_defs file_of_def field_width_def write_at_def splice_def eval_simps)

section \<open>Range violations\<close>

text \<open>
  Claim C5. Executing a write struct whose next field is \<^verbatim>\<open>uintBE(-1, 1)\<close>, \<^verbatim>\<open>uintBE(256, 1)\<close>,
  \<^verbatim>\<open>uintLE(-1, 1)\<close> or \<^verbatim>\<open>uintLE(256, 1)\<close> ends in a \<^verbatim>\<open>RangeError\<close>, whatever the cursor, the
  store and the fields queued behind it; the store is returned untouched, so no write
  call was issued for the field (nor for any later one), and the cursor has not moved.
\<close>

theorem uint_range_error_before_io:
  "Write_write \<lparr>position = pos, queue = WUIntBE (- 1) 1 # q\<rparr> st
     = (Throw RangeError, \<lparr>position = pos, queue = q\<rparr>, st)
   \<and> Write_write \<lparr>position = pos, queue = WUIntBE 256 1 # q\<rparr> st
     = (Throw RangeError, \<lparr>position = pos, queue = q\<rparr>, st)
   \<and> Write_write \<lparr>position = pos, queue = WUIntLE (- 1) 1 # q\<rparr> st
     = (Throw RangeError, \<lparr>position = pos, queue = q\<rparr>, st)
   \<and> Write_write \<lparr>position = pos, queue = WUIntLE 256 1 # q\<rparr> st
     = (Throw RangeError, \<lparr>position = pos, queue = q\<rparr>, st)"
  by (simp add: Write_write_def File_write_defs Buffer_defs)

section \<open>Length-prefixed buffers\<close>

text \<open>
  Claim C6 does not hold of the code. A read struct that reaches a \<^verbatim>\<open>bufferLenBE\<close> or
  \<^verbatim>\<open>bufferLenLE\<close> field never succeeds: on every store the execution ends in an
  exception. On a file that holds the prefix 00 02 and the payload AA BB, both reads are
  issued and succeed, and then the \<^verbatim>\<open>ReferenceError\<close> for \<^verbatim>\<open>str\<close> ends the execution;
  nothing is stored in the result and the callback is not invoked.
\<close>

theorem bufferLen_read_throws:
  "(\<exists>e. fst (Read_read \<lparr>position = pos, queue = RBufferLenBE name w # q\<rparr> st) = Throw e)
   \<and> (\<exists>e. fst (Read_read \<lparr>position = pos, queue = RBufferLenLE name w # q\<rparr> st) = Throw e)
   \<and> Read_read (Read_bufferLenBE ''data'' 2 (Read (Num 0))) (file_of [0x00, 0x02, 0xAA, 0xBB])
     = (Throw ReferenceError, \<lparr>position = Num 0, queue = []\<rparr>,
        \<lparr>content = [0x00, 0x02, 0xAA, 0xBB], fpos = 0, faults = [],
         iolog = [FsRead (Num 0) 2 (Some 2), FsRead (Num 2) 2 (Some 2)]\<rparr>)"
proof (intro conjI)
  show "\<exists>e. fst (Read_read \<lparr>position = pos, queue = RBufferLenBE name w # q\<rparr> st) = Throw e"
    by (simp add: struct_defs File_read_defs makeCallback_def
        split: prod.splits call.splits outcome.splits sum.splits)
  show "\<exists>e. fst (Read_read \<lparr>position = pos, queue = RBufferLenLE name w # q\<rparr> st) = Throw e"
    by (simp add: struct_defs File_read_defs makeCallback_def
        split: prod.splits call.splits outcome.splits sum.splits)
  show "Read_read (Read_bufferLenBE ''data'' 2 (Read (Num 0))) (file_of [0x00, 0x02, 0xAA, 0xBB])
     = (Throw ReferenceError, \<lparr>position = Num 0, queue = []\<rparr>,
        \<lparr>content = [0x00, 0x02, 0xAA, 0xBB], fpos = 0, faults = [],
         iolog = [FsRead (Num 0) 2 (Some 2), FsRead (Num 2) 2 (Some 2)]\<rparr>)"
    by (simp add: struct_defs File_read_defs Buffer_defs fs_defs makeCallback_def eval_simps)
qed

section \<open>Length-prefixed strings\<close>

text \<open>
  Claim C7. On a freshly opened file with any content \<open>c\<close>, at any offset \<open>p\<close>, the write
  struct \<^verbatim>\<open>stringLenBE("Hello World!", 2)\<close> issues one write of exactly 14 bytes: 00 0C and
  the 12 bytes of the text; it reports \<open>p + 14\<close>. On the file it leaves, the read struct
  \<^verbatim>\<open>stringLenBE(n, 2)\<close> at \<open>p\<close> succeeds with the result \<open>{n: "Hello World!"}\<close> and the offset
  \<open>p + 14\<close>, for every name \<open>n\<close> that the result object keeps (every name but
  \<^verbatim>\<open>__proto__\<close>).
\<close>

theorem hello_world_length_prefixed:
  "n \<noteq> ''__proto__'' \<Longrightarrow>
   Write_write (Write_stringLenBE (js ''Hello World!'') 2 (Write (Num p))) (file_of c)
     = (Called (Ok (Num (p + 14))), \<lparr>position = Num (p + 14), queue = []\<rparr>,
        \<lparr>content = take p (c @ replicate (p - length c) 0)
                    @ [0x00, 0x0C, 0x48, 0x65, 0x6C, 0x6C, 0x6F, 0x20, 0x57, 0x6F, 0x72, 0x6C, 0x64, 0x21]
                    @ drop (p + 14) c,
         fpos = 0, faults = [],
         iolog = [FsWrite (Num p)
                    [0x00, 0x0C, 0x48, 0x65, 0x6C, 0x6C, 0x6F, 0x20, 0x57, 0x6F, 0x72, 0x6C, 0x64, 0x21]
                    (Some 14)]\<rparr>)
   \<and> (\<exists>st'. Read_read (Read_stringLenBE n 2 (Read (Num p)))
               \<lparr>content = take p (c @ replicate (p - length c) 0)
                    @ [0x00, 0x0C, 0x48, 0x65, 0x6C, 0x6C, 0x6F, 0x20, 0x57, 0x6F, 0x72, 0x6C, 0x64, 0x21]
                    @ drop (p + 14) c,
                fpos = 0, faults = [],
                iolog = [FsWrite (Num p)
                    [0x00, 0x0C, 0x48, 0x65, 0x6C, 0x6C, 0x6F, 0x20, 0x57, 0x6F, 0x72, 0x6C, 0x64, 0x21]
                    (Some 14)]\<rparr>
             = (Called (Ok (Map.empty(n \<mapsto> VString (js ''Hello World!'')), Num (p + 14))),
                \<lparr>position = Num (p + 14), queue = []\<rparr>, st'))"
proof -
  assume n: "n \<noteq> ''__proto__''"
  let ?f = "WStringLenBE (js ''Hello World!'') 2"
  let ?b = "[0x00, 0x0C, 0x48, 0x65, 0x6C, 0x6C, 0x6F, 0x20, 0x57, 0x6F, 0x72, 0x6C, 0x64, 0x21] :: buffer"
  let ?st1 = "\<lparr>content = take p (c @ replicate (p - length c) 0) @ ?b @ drop (p + 14) c,
         fpos = 0, faults = [], iolog = [FsWrite (Num p) ?b (Some 14)]\<rparr>"
  have w: "Write_write (Write_stringLenBE (js ''Hello World!'') 2 (Write (Num p))) (file_of c)
     = (Called (Ok (Num (p + 14))), \<lparr>position = Num (p + 14), queue = []\<rparr>, ?st1)"
    by (simp add: struct_defs File_write_defs Buffer_defs fs_defs makeCallback_def
        hello_world_bytes eval_simps) (simp add: eval_nat_numeral)
  have fb: "field_bytes ?f = ?b" by (rule hello_field(3))
  have "holds_at ?st1 p (field_bytes ?f)" unfolding fb by (simp add: holds_at_def)
  then have h: "holds_at ?st1 p (concat (map (\<lambda>(n, f). field_bytes f) [(n, ?f)]))"
    by (simp del: field_bytes.simps)
  have ok: "list_all (\<lambda>(n, f). field_ok f \<and> plain f) [(n, ?f)]"
    using hello_field(1,2) by (simp del: field_ok.simps plain.simps)
  have fw: "field_width ?f = 14" unfolding field_width_def fb by simp
  from Read_next_readers [OF ok h, of Map.empty] obtain st' where
    "Read_next (map (\<lambda>(n, f). reader n f) [(n, ?f)]) (Num p) Map.empty ?st1
       = (Called (Ok (stored Map.empty [(n, ?f)],
                      Num (p + sum_list (map (\<lambda>(n, f). field_width f) [(n, ?f)])))),
          \<lparr>position = Num (p + sum_list (map (\<lambda>(n, f). field_width f) [(n, ?f)])), queue = []\<rparr>,
          st')"
    by auto
  then have "Read_read (Read_stringLenBE n 2 (Read (Num p))) ?st1
             = (Called (Ok (Map.empty(n \<mapsto> VString (js ''Hello World!'')), Num (p + 14))),
                \<lparr>position = Num (p + 14), queue = []\<rparr>, st')"
    using n by (simp add: struct_defs set_prop_def fw del: Read_next.simps)
  then show ?thesis using w by blast
qed

theorem hello_world_length_prefixed_witness:
  "''name'' \<noteq> ''__proto__''
   \<and> Write_write (Write_stringLenBE (js ''Hello World!'') 2 (Write (Num 0))) (file_of [])
     = (Called (Ok (Num 14)), \<lparr>position = Num 14, queue = []\<rparr>,
        \<lparr>content = [0x00, 0x0C, 0x48, 0x65, 0x6C, 0x6C, 0x6F, 0x20, 0x57, 0x6F, 0x72, 0x6C, 0x64, 0x21],
         fpos = 0, faults = [],
         iolog = [FsWrite (Num 0)
                    [0x00, 0x0C, 0x48, 0x65, 0x6C, 0x6C, 0x6F, 0x20, 0x57, 0x6F, 0x72, 0x6C, 0x64, 0x21]
                    (Some 14)]\<rparr>)
   \<and> (\<exists>st'. Read_read (Read_stringLenBE ''name'' 2 (Read (Num 0)))
               \<lparr>content = [0x00, 0x0C, 0x48, 0x65, 0x6C, 0x6C, 0x6F, 0x20, 0x57, 0x6F, 0x72, 0x6C, 0x64, 0x21],
                fpos = 0, faults = [],
                iolog = [FsWrite (Num 0)
                    [0x00, 0x0C, 0x48, 0x65, 0x6C, 0x6C, 0x6F, 0x20, 0x57, 0x6F, 0x72, 0x6C, 0x64, 0x21]
                    (Some 14)]\<rparr>
             = (Called (Ok (Map.empty(''name'' \<mapsto> VString (js ''Hello World!'')), Num 14)),
                \<lparr>position = Num 14, queue = []\<rparr>, st'))"
  using hello_world_length_prefixed [of "''name''" 0 "[]"] by simp

section \<open>Byte order\<close>

lemma le_bytes_258: "le_bytes 2 258 = [2, 1]"
  by (simp add: numeral_2_eq_2)

text \<open>
  Claim C8. On a freshly opened file with any content \<open>c\<close>, at any offset \<open>p\<close>, the struct
  \<^verbatim>\<open>uintBE(0x0102, 2)\<close> issues one write of exactly the bytes 01 02 and the struct
  \<^verbatim>\<open>uintLE(0x0102, 2)\<close> one write of exactly the bytes 02 01; the file then holds these
  two bytes at \<open>p\<close>.
\<close>

theorem uint_byte_order:
  "Write_write (Write_uintBE 0x0102 2 (Write (Num p))) (file_of c)
     = (Called (Ok (Num (p + 2))), \<lparr>position = Num (p + 2), queue = []\<rparr>,
        \<lparr>content = take p (c @ replicate (p - length c) 0) @ [0x01, 0x02] @ drop (p + 2) c,
         fpos = 0, faults = [], iolog = [FsWrite (Num p) [0x01, 0x02] (Some 2)]\<rparr>)
   \<and> Write_write (Write_uintLE 0x0102 2 (Write (Num p))) (file_of c)
     = (Called (Ok (Num (p + 2))), \<lparr>position = Num (p + 2), queue = []\<rparr>,
        \<lparr>content = take p (c @ replicate (p - length c) 0) @ [0x02, 0x01] @ drop (p + 2) c,
         fpos = 0, faults = [], iolog = [FsWrite (Num p) [0x02, 0x01] (Some 2)]\<rparr>)"
  by (simp add: struct_defs File_write_defs Buffer_defs fs_defs makeCallback_def le_bytes_258)

section \<open>The default offset\<close>

text \<open>
  Claim C9 does not hold of the code for \<^verbatim>\<open>Write\<close>. The constructor \<^verbatim>\<open>Write\<close> keeps the
  position it is given, so without one the cursor is \<^verbatim>\<open>undefined\<close>: the first write is
  issued with the position \<^verbatim>\<open>undefined\<close> and the callback receives \<^verbatim>\<open>NaN\<close>. The constructor
  \<^verbatim>\<open>Read\<close> and the factories \<^verbatim>\<open>createWriteStruct\<close> and \<^verbatim>\<open>createReadStruct\<close> do start at 0.
\<close>

theorem Write_without_position:
  "position (Write Undefined) = Undefined
   \<and> Write_write (Write_uintBE 1 1 (Write Undefined)) (file_of [])
     = (Called (Ok NaN), \<lparr>position = NaN, queue = []\<rparr>,
        \<lparr>content = [0x01], fpos = 1, faults = [], iolog = [FsWrite Undefined [0x01] (Some 1)]\<rparr>)
   \<and> position (Read Undefined) = Num 0
   \<and> position (createWriteStruct Undefined) = Num 0
   \<and> position (createReadStruct Undefined) = Num 0"
  by (simp add: struct_defs File_write_defs Buffer_defs fs_defs makeCallback_def eval_simps)

section \<open>Executing an empty struct\<close>

text \<open>
  Claim C10. A write struct and a read struct whose queue is empty perform no I/O (the
  store, with its log of issued calls, is returned as it was) and call back at once with
  success: the write struct with its starting offset, the read struct with the empty
  result object and its starting offset.
\<close>

theorem empty_queue_immediate_success:
  "Write_write \<lparr>position = p, queue = []\<rparr> st
     = (Called (Ok p), \<lparr>position = p, queue = []\<rparr>, st)
   \<and> Read_read \<lparr>position = p, queue = []\<rparr> st
     = (Called (Ok (Map.empty, p)), \<lparr>position = p, queue = []\<rparr>, st)"
  by (simp add: Write_write_def Read_read_def)

end
